theory Spec2Isabelle
  imports Complex_Main
begin

section \<open>The store: tables of the SQLite schema\<close>

text \<open>
  The engine keeps its state in an SQLite database (\<^verbatim>\<open>src/db/schema.ts\<close>). Each table is
  a list of rows in rowid order; an \<^verbatim>\<open>AUTOINCREMENT\<close> key is drawn from a counter kept
  beside the table. Row ids and counters are natural numbers, timestamps are integers
  (milliseconds). Numbers of type \<^verbatim>\<open>REAL\<close> (scores, strengths) are IEEE doubles in the
  store and real numbers here: a formula stated for them holds of the code up to the
  rounding of its double arithmetic, and a statement that turns on an exact comparison is
  made only at inputs where that arithmetic is exact.
  \<^verbatim>\<open>Date.now()\<close> is the reading \<open>now\<close> handed to each operation; all readings taken
  within one operation are this one value.
\<close>

datatype MemoryType = Entity | Lesson | ErrorMem | Relation

datatype MemoryScope = Global | Project

datatype MemoryStatus = Active | Archived | Consolidated

datatype FeedbackType = Helpful | Unhelpful | Outdated | Incorrect

datatype RelationshipType = Similar | Supersedes | Contradicts | DerivedFrom

text \<open>
  What better-sqlite3 throws when a statement violates a constraint of the schema. A
  function that can throw returns \<open>Inl\<close> of the error and the store as the failing
  statement found it (a failed statement writes nothing), or \<open>Inr\<close> of its results.
\<close>

datatype SqliteError = ForeignKeyConstraintFailed | CheckConstraintFailed

record Memory =
  mem_id :: nat
  mem_type :: MemoryType
  encoded :: string
  decodedCache :: "string option"
  scope :: MemoryScope
  projectHash :: "string option"
  importance :: nat
  createdAt :: int
  accessedAt :: int
  accessCount :: nat
  usefulnessScore :: real
  timesHelpful :: nat
  timesUnhelpful :: nat
  status :: MemoryStatus
  parentId :: "nat option"
  level :: nat
  lastDecay :: "int option"

record MemoryFeedback =
  fb_id :: nat
  fb_memoryId :: nat
  feedbackType :: FeedbackType
  fb_context :: "string option"
  fb_timestamp :: int

record MemoryRelationship =
  rel_id :: nat
  sourceId :: nat
  targetId :: nat
  relationship :: RelationshipType
  strength :: real
  rel_createdAt :: int

record MemoryEmbedding =
  emb_memoryId :: nat
  emb_vector :: "real list"
  emb_model :: string

record AutoLearnLog =
  log_id :: nat
  triggerType :: string
  log_context :: string
  log_memoryId :: "nat option"
  log_timestamp :: int

record Database =
  memories :: "Memory list"
  memories_seq :: nat
  embeddings :: "MemoryEmbedding list"
  auto_learn_log :: "AutoLearnLog list"
  memory_feedback :: "MemoryFeedback list"
  memory_feedback_seq :: nat
  memory_relationships :: "MemoryRelationship list"
  memory_relationships_seq :: nat

text \<open>\<^verbatim>\<open>SELECT ... FROM memories WHERE id = ?\<close> with \<^verbatim>\<open>.get\<close>: the first row, if any.\<close>

definition selectMemory :: "Database \<Rightarrow> nat \<Rightarrow> Memory option" where
  "selectMemory db i = find (\<lambda>m. mem_id m = i) (memories db)"

text \<open>\<^verbatim>\<open>UPDATE memories SET ... WHERE id = ?\<close>.\<close>

definition updateMemoriesWhereId :: "Database \<Rightarrow> nat \<Rightarrow> (Memory \<Rightarrow> Memory) \<Rightarrow> Database" where
  "updateMemoriesWhereId db i f =
     db\<lparr>memories := map (\<lambda>m. if mem_id m = i then f m else m) (memories db)\<rparr>"

text \<open>
  The invariants the schema maintains (with \<^verbatim>\<open>foreign_keys = ON\<close>): primary keys are
  unique and a \<^verbatim>\<open>parent_id\<close> references a stored memory.
\<close>

definition wf_db :: "Database \<Rightarrow> bool" where
  "wf_db db \<longleftrightarrow>
     distinct (map mem_id (memories db)) \<and>
     distinct (map rel_id (memory_relationships db)) \<and>
     list_all (\<lambda>m. case parentId m of None \<Rightarrow> True
                       | Some p \<Rightarrow> p \<in> set (map mem_id (memories db))) (memories db)"

text \<open>
  An \<^verbatim>\<open>INTEGER PRIMARY KEY AUTOINCREMENT\<close> column: the new key is one more than the
  largest of the table's counter and the keys in the table.
\<close>

definition autoincrement :: "nat \<Rightarrow> nat list \<Rightarrow> nat" where
  "autoincrement seq keys = Suc (fold max keys seq)"

definition memoryExists :: "Database \<Rightarrow> nat \<Rightarrow> bool" where
  "memoryExists db i = (selectMemory db i \<noteq> None)"

section \<open>Usefulness Scorer\<close>

text \<open>The arithmetic of \<^verbatim>\<open>updateUsefulnessScore\<close> on the selected row.\<close>

definition computeUsefulness :: "int \<Rightarrow> Memory \<Rightarrow> real" where
  "computeUsefulness now row =
     (let baseImportance = real (importance row);
          timesHelpful = real (timesHelpful row);
          timesUnhelpful = real (timesUnhelpful row);
          accessCount = real (accessCount row);
          daysSinceAccess = real_of_int (now - accessedAt row) / (1000 * 60 * 60 * 24);
          helpfulRatio = (timesHelpful + 1) / (timesHelpful + timesUnhelpful + 2);
          recencyBoost = 0.98 powr (min daysSinceAccess 365);
          accessBoost = ln (accessCount + 1) / 10
      in min 9.0 (max 1.0
           (baseImportance * (0.5 + helpfulRatio * 0.3 + recencyBoost * 0.15 + accessBoost * 0.05))))"

definition updateUsefulnessScore :: "Database \<Rightarrow> int \<Rightarrow> nat \<Rightarrow> Database \<times> real" where
  "updateUsefulnessScore db now memoryId =
     (case selectMemory db memoryId of
        None \<Rightarrow> (db, 5.0)
      | Some row \<Rightarrow>
          (let usefulnessScore' = computeUsefulness now row
           in (updateMemoriesWhereId db memoryId
                 (\<lambda>m. m\<lparr>usefulnessScore := usefulnessScore', lastDecay := Some now\<rparr>),
               usefulnessScore')))"

fun applyDecayLoop :: "Database \<Rightarrow> int \<Rightarrow> nat list \<Rightarrow> Database" where
  "applyDecayLoop db now [] = db"
| "applyDecayLoop db now (i # is) = applyDecayLoop (fst (updateUsefulnessScore db now i)) now is"

definition applyDecayToAll :: "Database \<Rightarrow> int \<Rightarrow> Database \<times> nat" where
  "applyDecayToAll db now =
     (let ids = map mem_id (filter (\<lambda>m. status m = Active) (memories db))
      in (applyDecayLoop db now ids, length ids))"

text \<open>The score as the specification words it.\<close>

definition clamp :: "real \<Rightarrow> real \<Rightarrow> real \<Rightarrow> real" where
  "clamp x lo hi = (if x < lo then lo else if hi < x then hi else x)"

definition spec_score :: "nat \<Rightarrow> nat \<Rightarrow> nat \<Rightarrow> real \<Rightarrow> nat \<Rightarrow> real" where
  "spec_score imp helpful unhelpful daysSinceLastAccess accesses =
     (let helpfulRatio = (real helpful + 1) / (real helpful + real unhelpful + 2);
          recencyBoost = 0.98 powr (min daysSinceLastAccess 365);
          accessBoost = ln (real accesses + 1) / 10
      in clamp (real imp * (0.5 + 0.3 * helpfulRatio + 0.15 * recencyBoost + 0.05 * accessBoost))
           1.0 9.0)"

definition daysSinceLastAccess :: "int \<Rightarrow> Memory \<Rightarrow> real" where
  "daysSinceLastAccess now m = real_of_int (now - accessedAt m) / 86400000"

section \<open>Retrieval by id\<close>

text \<open>\<^verbatim>\<open>getMemory\<close>: the row as selected, and the access bookkeeping written after it.\<close>

definition getMemory :: "Database \<Rightarrow> int \<Rightarrow> nat \<Rightarrow> Database \<times> Memory option" where
  "getMemory db now i =
     (case selectMemory db i of
        None \<Rightarrow> (db, None)
      | Some row \<Rightarrow>
          (updateMemoriesWhereId db i
             (\<lambda>m. m\<lparr>accessedAt := now, accessCount := accessCount m + 1\<rparr>),
           Some row))"

section \<open>Feedback Recorder\<close>

text \<open>
  \<^verbatim>\<open>recordFeedback\<close>. The \<^verbatim>\<open>INSERT INTO memory_feedback\<close> is checked against
  \<^verbatim>\<open>FOREIGN KEY (memory_id) REFERENCES memories(id)\<close>; when it throws, nothing after
  it runs.
\<close>

definition recordFeedback ::
  "Database \<Rightarrow> int \<Rightarrow> nat \<Rightarrow> FeedbackType \<Rightarrow> string option
     \<Rightarrow> SqliteError \<times> Database + (Database \<times> MemoryFeedback)" where
  "recordFeedback db now memoryId fbType ctx =
     (if \<not> memoryExists db memoryId then Inl (ForeignKeyConstraintFailed, db)
      else
        (let lastInsertRowid =
               autoincrement (memory_feedback_seq db) (map fb_id (memory_feedback db));
             event = \<lparr>fb_id = lastInsertRowid, fb_memoryId = memoryId, feedbackType = fbType,
                      fb_context = ctx, fb_timestamp = now\<rparr>;
             db1 = db\<lparr>memory_feedback := memory_feedback db @ [event],
                      memory_feedback_seq := lastInsertRowid\<rparr>;
             db2 = (if fbType = Helpful then
                      updateMemoriesWhereId db1 memoryId
                        (\<lambda>m. m\<lparr>timesHelpful := timesHelpful m + 1\<rparr>)
                    else if fbType = Unhelpful \<or> fbType = Incorrect then
                      updateMemoriesWhereId db1 memoryId
                        (\<lambda>m. m\<lparr>timesUnhelpful := timesUnhelpful m + 1\<rparr>)
                    else db1);
             db3 = fst (updateUsefulnessScore db2 now memoryId)
         in Inr (db3, event)))"

text \<open>Decimal rendering of numbers inside template strings.\<close>

definition digit_char :: "nat \<Rightarrow> char" where
  "digit_char d = ''0123456789'' ! d"

fun string_of_nat :: "nat \<Rightarrow> string" where
  "string_of_nat n =
     (if n < 10 then [digit_char n]
      else string_of_nat (n div 10) @ [digit_char (n mod 10)])"

declare string_of_nat.simps [simp del]

definition string_of_int :: "int \<Rightarrow> string" where
  "string_of_int i = (if i < 0 then CHR ''-'' # string_of_nat (nat (- i)) else string_of_nat (nat i))"

definition quoted :: "string \<Rightarrow> string" where
  "quoted s = CHR 0x22 # s @ [CHR 0x22]"

text \<open>The \<^verbatim>\<open>memory_feedback\<close> tool (\<^verbatim>\<open>feedback\<close>): its loop over the given ids.\<close>

record FeedbackInput =
  memoryIds :: "nat list option"
  feedback_in :: "FeedbackType option"
  context_in :: "string option"

record MemoryUpdated =
  upd_id :: nat
  newUsefulnessScore :: real
  upd_timesHelpful :: nat
  upd_timesUnhelpful :: nat

record FeedbackResult =
  fr_success :: bool
  feedbackRecorded :: nat
  memoriesUpdated :: "MemoryUpdated list"
  fr_warnings :: "string list option"

fun feedbackLoop ::
  "Database \<Rightarrow> int \<Rightarrow> FeedbackType \<Rightarrow> string option \<Rightarrow> nat list
     \<Rightarrow> MemoryUpdated list \<Rightarrow> string list
     \<Rightarrow> SqliteError \<times> Database + (Database \<times> MemoryUpdated list \<times> string list)" where
  "feedbackLoop db now fbType ctx [] updated warnings = Inr (db, updated, warnings)"
| "feedbackLoop db now fbType ctx (memoryId # rest) updated warnings =
     (case getMemory db now memoryId of
        (db1, None) \<Rightarrow>
          feedbackLoop db1 now fbType ctx rest updated
            (warnings @ [''Memory #'' @ string_of_nat memoryId @ '' not found''])
      | (db1, Some memory) \<Rightarrow>
          (case recordFeedback db1 now memoryId fbType ctx of
             Inl e \<Rightarrow> Inl e
           | Inr (db2, event) \<Rightarrow>
               (case getMemory db2 now memoryId of
                  (db3, None) \<Rightarrow> feedbackLoop db3 now fbType ctx rest updated warnings
                | (db3, Some updatedMemory) \<Rightarrow>
                    feedbackLoop db3 now fbType ctx rest
                      (updated @ [\<lparr>upd_id = memoryId,
                                    newUsefulnessScore = usefulnessScore updatedMemory,
                                    upd_timesHelpful = timesHelpful updatedMemory,
                                    upd_timesUnhelpful = timesUnhelpful updatedMemory\<rparr>])
                      warnings)))"

definition feedback ::
  "Database \<Rightarrow> int \<Rightarrow> FeedbackInput \<Rightarrow> SqliteError \<times> Database + (Database \<times> FeedbackResult)" where
  "feedback db now input =
     (if memoryIds input = None \<or> memoryIds input = Some [] then
        Inr (db, \<lparr>fr_success = False, feedbackRecorded = 0, memoriesUpdated = [],
                  fr_warnings = Some [''No memory IDs provided. Specify memoryIds array.'']\<rparr>)
      else case feedback_in input of
        None \<Rightarrow>
          Inr (db, \<lparr>fr_success = False, feedbackRecorded = 0, memoriesUpdated = [],
                    fr_warnings = Some [''No feedback type provided. Use '' @ quoted ''helpful'' @ '', ''
                                        @ quoted ''unhelpful'' @ '', '' @ quoted ''outdated''
                                        @ '', or '' @ quoted ''incorrect'' @ ''.'']\<rparr>)
      | Some fbType \<Rightarrow>
          (case feedbackLoop db now fbType (context_in input) (the (memoryIds input)) [] [] of
             Inl e \<Rightarrow> Inl e
           | Inr (db', updated, warnings) \<Rightarrow>
               Inr (db', \<lparr>fr_success = True, feedbackRecorded = length updated,
                          memoriesUpdated = updated,
                          fr_warnings = (if warnings \<noteq> [] then Some warnings else None)\<rparr>)))"

section \<open>Status changes, creation and deletion\<close>

text \<open>
  \<^verbatim>\<open>updateMemoryStatus\<close>. \<^verbatim>\<open>parent_id\<close> must reference a stored memory when a row is
  written.
\<close>

definition updateMemoryStatus ::
  "Database \<Rightarrow> nat \<Rightarrow> MemoryStatus \<Rightarrow> nat option \<Rightarrow> SqliteError \<times> Database + (Database \<times> bool)" where
  "updateMemoryStatus db memoryId st parent =
     (if memoryExists db memoryId \<and> (case parent of None \<Rightarrow> False | Some p \<Rightarrow> \<not> memoryExists db p)
      then Inl (ForeignKeyConstraintFailed, db)
      else Inr (updateMemoriesWhereId db memoryId (\<lambda>m. m\<lparr>status := st, parentId := parent\<rparr>),
                memoryExists db memoryId))"

record CreateMemoryInput =
  cm_type :: MemoryType
  cm_encoded :: string
  cm_decodedCache :: "string option"
  cm_scope :: MemoryScope
  cm_projectHash :: "string option"
  cm_importance :: "nat option"

text \<open>
  \<^verbatim>\<open>createMemory\<close>. The columns added by the second migration take their defaults; the
  insert is checked against \<^verbatim>\<open>CHECK(importance BETWEEN 1 AND 9)\<close>.
\<close>

definition createMemory ::
  "Database \<Rightarrow> int \<Rightarrow> CreateMemoryInput \<Rightarrow> SqliteError \<times> Database + (Database \<times> Memory)" where
  "createMemory db now input =
     (let imp = (case cm_importance input of None \<Rightarrow> 5 | Some i \<Rightarrow> i)
      in if imp < 1 \<or> 9 < imp then Inl (CheckConstraintFailed, db)
         else
           (let lastInsertRowid = autoincrement (memories_seq db) (map mem_id (memories db));
                row = \<lparr>mem_id = lastInsertRowid, mem_type = cm_type input,
                        encoded = cm_encoded input, decodedCache = cm_decodedCache input,
                        scope = cm_scope input, projectHash = cm_projectHash input,
                        importance = imp, createdAt = now, accessedAt = now, accessCount = 0,
                        usefulnessScore = 5.0, timesHelpful = 0, timesUnhelpful = 0,
                        status = Active, parentId = None, level = 1, lastDecay = None\<rparr>
            in Inr (db\<lparr>memories := memories db @ [row], memories_seq := lastInsertRowid\<rparr>,
                    row)))"

text \<open>
  \<^verbatim>\<open>createRelationship\<close>, checked against the two foreign keys of
  \<^verbatim>\<open>memory_relationships\<close>.
\<close>

definition createRelationship ::
  "Database \<Rightarrow> int \<Rightarrow> nat \<Rightarrow> nat \<Rightarrow> RelationshipType \<Rightarrow> real
     \<Rightarrow> SqliteError \<times> Database + (Database \<times> MemoryRelationship)" where
  "createRelationship db now src tgt rel str =
     (if \<not> memoryExists db src \<or> \<not> memoryExists db tgt then Inl (ForeignKeyConstraintFailed, db)
      else
        (let lastInsertRowid =
               autoincrement (memory_relationships_seq db)
                 (map rel_id (memory_relationships db));
             row = \<lparr>rel_id = lastInsertRowid, sourceId = src, targetId = tgt,
                    relationship = rel, strength = str, rel_createdAt = now\<rparr>
         in Inr (db\<lparr>memory_relationships := memory_relationships db @ [row],
                    memory_relationships_seq := lastInsertRowid\<rparr>,
                 row)))"

text \<open>
  \<^verbatim>\<open>deleteMemory\<close>: \<^verbatim>\<open>DELETE FROM memories WHERE id = ?\<close> with the schema's actions on
  the referencing tables: \<^verbatim>\<open>ON DELETE CASCADE\<close> for \<^verbatim>\<open>embeddings\<close>,
  \<^verbatim>\<open>memory_feedback\<close> and both ends of \<^verbatim>\<open>memory_relationships\<close>,
  \<^verbatim>\<open>ON DELETE SET NULL\<close> for \<^verbatim>\<open>auto_learn_log.memory_id\<close> and
  \<^verbatim>\<open>memories.parent_id\<close>.
\<close>

definition deleteMemory :: "Database \<Rightarrow> nat \<Rightarrow> Database \<times> bool" where
  "deleteMemory db i =
     (if \<not> memoryExists db i then (db, False)
      else
        (db\<lparr>memories :=
               map (\<lambda>m. if parentId m = Some i then m\<lparr>parentId := None\<rparr> else m)
                 (filter (\<lambda>m. mem_id m \<noteq> i) (memories db)),
             embeddings := filter (\<lambda>e. emb_memoryId e \<noteq> i) (embeddings db),
             auto_learn_log :=
               map (\<lambda>l. if log_memoryId l = Some i then l\<lparr>log_memoryId := None\<rparr> else l)
                 (auto_learn_log db),
             memory_feedback := filter (\<lambda>f. fb_memoryId f \<noteq> i) (memory_feedback db),
             memory_relationships :=
               filter (\<lambda>r. sourceId r \<noteq> i \<and> targetId r \<noteq> i) (memory_relationships db)\<rparr>,
         True))"

section \<open>Pruning Engine\<close>

text \<open>
  \<^verbatim>\<open>getLowUsefulnessMemories\<close>: the \<^verbatim>\<open>WHERE\<close> clause, \<^verbatim>\<open>ORDER BY usefulness_score ASC\<close>
  (rows of equal score stay in rowid order) and \<^verbatim>\<open>LIMIT\<close>.
\<close>

definition getLowUsefulnessMemories :: "Database \<Rightarrow> int \<Rightarrow> real \<Rightarrow> real \<Rightarrow> nat \<Rightarrow> Memory list" where
  "getLowUsefulnessMemories db now maxUsefulness maxDaysSinceAccess limit =
     (let cutoffTime = real_of_int now - maxDaysSinceAccess * 24 * 60 * 60 * 1000
      in take limit
           (sort_key usefulnessScore
              (filter (\<lambda>m. status m = Active
                          \<and> usefulnessScore m < maxUsefulness
                          \<and> real_of_int (accessedAt m) < cutoffTime
                          \<and> importance m < 8)
                 (memories db))))"

definition daysSinceAccess :: "int \<Rightarrow> int \<Rightarrow> int" where
  "daysSinceAccess now accessedAt' = \<lfloor>real_of_int (now - accessedAt') / (1000 * 60 * 60 * 24)\<rfloor>"

definition contentOf :: "Memory \<Rightarrow> string" where
  "contentOf m = (case decodedCache m of
                    None \<Rightarrow> encoded m
                  | Some d \<Rightarrow> if d = [] then encoded m else d)"

definition estimateMemorySize :: "Memory \<Rightarrow> nat" where
  "estimateMemorySize m =
     length (encoded m) + (case decodedCache m of None \<Rightarrow> 0 | Some d \<Rightarrow> length d) + 100"

record PruneInput =
  minUsefulness :: "real option"
  maxAge :: "real option"
  dryRun_in :: "bool option"
  permanent_in :: "bool option"

record PrunedMemory =
  pm_id :: nat
  pm_type :: MemoryType
  pm_usefulnessScore :: real
  pm_daysSinceAccess :: int
  pm_importance :: nat
  pm_preview :: string

record PruneResult =
  pr_success :: bool
  pr_dryRun :: bool
  memoriesPruned :: nat
  estimatedBytes :: nat
  prunedMemories :: "PrunedMemory list option"
  pr_warnings :: "string list option"

definition highImportanceWarning :: "Memory \<Rightarrow> string" where
  "highImportanceWarning m =
     ''Skipping high-importance memory #'' @ string_of_nat (mem_id m)
       @ '' (importance='' @ string_of_nat (importance m) @ '')''"

definition recentAccessWarning :: "int \<Rightarrow> Memory \<Rightarrow> string" where
  "recentAccessWarning now m =
     ''Skipping recently accessed memory #'' @ string_of_nat (mem_id m)
       @ '' ('' @ string_of_int (daysSinceAccess now (accessedAt m)) @ '' days ago)''"

text \<open>
  The safety filter of \<^verbatim>\<open>prune\<close>: the callback of \<^verbatim>\<open>filtered.filter\<close>, run over the
  candidates in order, with the warnings it pushes.
\<close>

fun safetyFilter :: "int \<Rightarrow> Memory list \<Rightarrow> string list \<Rightarrow> Memory list \<times> string list" where
  "safetyFilter now [] warnings = ([], warnings)"
| "safetyFilter now (m # ms) warnings =
     (if importance m \<ge> 8 then
        safetyFilter now ms (warnings @ [highImportanceWarning m])
      else if daysSinceAccess now (accessedAt m) < 7 then
        safetyFilter now ms (warnings @ [recentAccessWarning now m])
      else
        (case safetyFilter now ms warnings of (safe, warnings') \<Rightarrow> (m # safe, warnings')))"

definition prunedDetail :: "int \<Rightarrow> Memory \<Rightarrow> PrunedMemory" where
  "prunedDetail now m =
     (let preview = take 100 (contentOf m)
      in \<lparr>pm_id = mem_id m, pm_type = mem_type m,
          pm_usefulnessScore = real_of_int \<lfloor>usefulnessScore m * 100 + 1 / 2\<rfloor> / 100,
          pm_daysSinceAccess = daysSinceAccess now (accessedAt m),
          pm_importance = importance m,
          pm_preview = (if length preview = 100 then preview @ ''...'' else preview)\<rparr>)"

fun pruneLoop :: "Database \<Rightarrow> bool \<Rightarrow> Memory list \<Rightarrow> nat \<Rightarrow> SqliteError \<times> Database + (Database \<times> nat)" where
  "pruneLoop db permanent [] prunedCount = Inr (db, prunedCount)"
| "pruneLoop db permanent (m # ms) prunedCount =
     (if permanent then pruneLoop (fst (deleteMemory db (mem_id m))) permanent ms (prunedCount + 1)
      else case updateMemoryStatus db (mem_id m) Archived None of
             Inl e \<Rightarrow> Inl e
           | Inr (db', changed) \<Rightarrow> pruneLoop db' permanent ms (prunedCount + 1))"

definition pruneCandidates :: "Database \<Rightarrow> int \<Rightarrow> PruneInput \<Rightarrow> string option \<Rightarrow> Memory list" where
  "pruneCandidates db now input projectHash' =
     (let minUsefulness' = (case minUsefulness input of None \<Rightarrow> 2.0 | Some v \<Rightarrow> v);
          maxAge' = (case maxAge input of None \<Rightarrow> 90 | Some v \<Rightarrow> v);
          candidates = getLowUsefulnessMemories db now minUsefulness' maxAge' 200
      in case projectHash' of
           None \<Rightarrow> candidates
         | Some h \<Rightarrow>
             if h = [] then candidates
             else filter (\<lambda>m. scope m = Global \<or> projectHash m = Some h) candidates)"

definition prune ::
  "Database \<Rightarrow> int \<Rightarrow> PruneInput \<Rightarrow> string option \<Rightarrow> SqliteError \<times> Database + (Database \<times> PruneResult)" where
  "prune db now input projectHash' =
     (let dryRun = (case dryRun_in input of None \<Rightarrow> False | Some b \<Rightarrow> b);
          permanent = (case permanent_in input of None \<Rightarrow> False | Some b \<Rightarrow> b);
          filtered = pruneCandidates db now input projectHash'
      in case safetyFilter now filtered [] of
           (safeMemories, warnings) \<Rightarrow>
             if safeMemories = [] then
               Inr (db, \<lparr>pr_success = True, pr_dryRun = dryRun, memoriesPruned = 0,
                         estimatedBytes = 0, prunedMemories = None,
                         pr_warnings = Some (if warnings \<noteq> [] then warnings
                                             else [''No memories eligible for pruning.''])\<rparr>)
             else
               (let totalBytes = sum_list (map estimateMemorySize safeMemories);
                    prunedDetails = map (prunedDetail now) safeMemories
                in if dryRun then
                     Inr (db, \<lparr>pr_success = True, pr_dryRun = True,
                               memoriesPruned = length safeMemories,
                               estimatedBytes = totalBytes,
                               prunedMemories = Some prunedDetails,
                               pr_warnings = (if warnings \<noteq> [] then Some warnings else None)\<rparr>)
                   else
                     (case pruneLoop db permanent safeMemories 0 of
                        Inl e \<Rightarrow> Inl e
                      | Inr (db', prunedCount) \<Rightarrow>
                          Inr (db', \<lparr>pr_success = True, pr_dryRun = False,
                                     memoriesPruned = prunedCount,
                                     estimatedBytes = totalBytes,
                                     prunedMemories = Some prunedDetails,
                                     pr_warnings =
                                       (if warnings \<noteq> [] then Some warnings else None)\<rparr>))))"

section \<open>Access-Pattern Learner\<close>

text \<open>One iteration of the inner loop of \<^verbatim>\<open>recordCoAccess\<close>, on the ordered pair.\<close>

definition selectSimilar :: "Database \<Rightarrow> nat \<Rightarrow> nat \<Rightarrow> MemoryRelationship option" where
  "selectSimilar db src tgt =
     find (\<lambda>r. sourceId r = src \<and> targetId r = tgt \<and> relationship r = Similar)
       (memory_relationships db)"

definition coAccessPair :: "Database \<Rightarrow> int \<Rightarrow> real \<Rightarrow> nat \<Rightarrow> nat \<Rightarrow> SqliteError \<times> Database + Database" where
  "coAccessPair db now str a b =
     (let src = (if a < b then a else b);
          tgt = (if a < b then b else a)
      in case selectSimilar db src tgt of
           Some existing \<Rightarrow>
             (let newStrength = min 10 (strength existing + str)
              in Inr (db\<lparr>memory_relationships :=
                           map (\<lambda>r. if rel_id r = rel_id existing
                                     then r\<lparr>strength := newStrength\<rparr> else r)
                             (memory_relationships db)\<rparr>))
         | None \<Rightarrow>
             (case createRelationship db now src tgt Similar str of
                Inl e \<Rightarrow> Inl e
              | Inr (db', row) \<Rightarrow> Inr db'))"

fun coAccessInner :: "Database \<Rightarrow> int \<Rightarrow> real \<Rightarrow> nat \<Rightarrow> nat list \<Rightarrow> SqliteError \<times> Database + Database" where
  "coAccessInner db now str a [] = Inr db"
| "coAccessInner db now str a (b # bs) =
     (case coAccessPair db now str a b of
        Inl e \<Rightarrow> Inl e
      | Inr db' \<Rightarrow> coAccessInner db' now str a bs)"

fun coAccessOuter :: "Database \<Rightarrow> int \<Rightarrow> real \<Rightarrow> nat list \<Rightarrow> SqliteError \<times> Database + Database" where
  "coAccessOuter db now str [] = Inr db"
| "coAccessOuter db now str (a # rest) =
     (case coAccessInner db now str a rest of
        Inl e \<Rightarrow> Inl e
      | Inr db' \<Rightarrow> coAccessOuter db' now str rest)"

definition recordCoAccess :: "Database \<Rightarrow> int \<Rightarrow> nat list \<Rightarrow> real \<Rightarrow> SqliteError \<times> Database + Database" where
  "recordCoAccess db now memoryIds' str =
     (if length memoryIds' < 2 then Inr db else coAccessOuter db now str memoryIds')"

text \<open>\<^verbatim>\<open>decayRelationshipStrengths\<close>: the \<^verbatim>\<open>UPDATE\<close>, then the \<^verbatim>\<open>DELETE\<close>.\<close>

definition decayRelationshipStrengths :: "Database \<Rightarrow> real \<Rightarrow> real \<Rightarrow> Database \<times> nat" where
  "decayRelationshipStrengths db decayFactor minStrength =
     (let updated = map (\<lambda>r. if strength r > minStrength
                             then r\<lparr>strength := strength r * decayFactor\<rparr> else r)
                      (memory_relationships db);
          changes = length (filter (\<lambda>r. strength r > minStrength) (memory_relationships db));
          kept = filter (\<lambda>r. \<not> strength r < minStrength) updated
      in (db\<lparr>memory_relationships := kept\<rparr>, changes))"

text \<open>
  The query of \<^verbatim>\<open>getSuggestedMemories\<close>. \<^verbatim>\<open>GROUP BY related_id\<close> yields one row per
  related id; \<^verbatim>\<open>ORDER BY total_strength DESC\<close> puts them in descending order of the
  total. SQL leaves the order of rows of equal total open; SQLite returns them in
  descending order of the related id (its sorter orders the groups, which arrive by
  ascending id, and the result is read from the far end), and so does the model. The
  query reads no column of \<^verbatim>\<open>memories\<close>.
\<close>

definition relatedId :: "nat list \<Rightarrow> MemoryRelationship \<Rightarrow> nat" where
  "relatedId cur r = (if sourceId r \<in> set cur then targetId r else sourceId r)"

definition suggestionRows :: "Database \<Rightarrow> nat list \<Rightarrow> nat \<Rightarrow> (nat \<times> real) list" where
  "suggestionRows db cur limit =
     (let matching = filter (\<lambda>r. (sourceId r \<in> set cur \<or> targetId r \<in> set cur)
                                 \<and> relationship r = Similar)
                       (memory_relationships db);
          groups = map (\<lambda>i. (i, sum_list (map strength
                                             (filter (\<lambda>r. relatedId cur r = i) matching))))
                     (sort (remdups (map (relatedId cur) matching)));
          having = filter (\<lambda>g. fst g \<notin> set cur) groups;
          ordered = rev (sort_key snd having)
      in take limit ordered)"

fun suggestLoop :: "Database \<Rightarrow> int \<Rightarrow> (nat \<times> real) list \<Rightarrow> Memory list \<Rightarrow> Database \<times> Memory list" where
  "suggestLoop db now [] acc = (db, acc)"
| "suggestLoop db now (row # rows) acc =
     (case getMemory db now (fst row) of
        (db', None) \<Rightarrow> suggestLoop db' now rows acc
      | (db', Some memory) \<Rightarrow>
          if status memory = Active then suggestLoop db' now rows (acc @ [memory])
          else suggestLoop db' now rows acc)"

definition getSuggestedMemories :: "Database \<Rightarrow> int \<Rightarrow> nat list \<Rightarrow> nat \<Rightarrow> Database \<times> Memory list" where
  "getSuggestedMemories db now currentMemoryIds limit =
     (if currentMemoryIds = [] then (db, [])
      else suggestLoop db now (suggestionRows db currentMemoryIds limit) [])"

section \<open>Consolidation Engine\<close>

text \<open>
  The clusters are those \<^verbatim>\<open>findSimilarClusters\<close> hands to the loop of \<^verbatim>\<open>consolidate\<close>.
  The encoder (\<^verbatim>\<open>quickEncode\<close>) and the embedding provider (\<^verbatim>\<open>generateEmbedding\<close>, which
  may throw) are collaborators outside the engine and are parameters here.
\<close>

record ConsolidationCluster =
  cl_memories :: "Memory list"
  averageSimilarity :: real
  combinedImportance :: nat
  suggestedAbstraction :: string

record AbstractionCreated =
  ac_id :: nat
  ac_level :: nat
  ac_content :: string
  sourceCount :: nat
  ac_combinedImportance :: nat

definition sqliteMessage :: "SqliteError \<Rightarrow> string" where
  "sqliteMessage e = (case e of
       ForeignKeyConstraintFailed \<Rightarrow> ''SqliteError: FOREIGN KEY constraint failed''
     | CheckConstraintFailed \<Rightarrow> ''SqliteError: CHECK constraint failed'')"

text \<open>\<^verbatim>\<open>storeEmbedding\<close>: \<^verbatim>\<open>INSERT OR REPLACE\<close> on the primary key \<^verbatim>\<open>memory_id\<close>.\<close>

definition storeEmbedding :: "Database \<Rightarrow> nat \<Rightarrow> real list \<Rightarrow> string \<Rightarrow> SqliteError \<times> Database + Database" where
  "storeEmbedding db memoryId vec mdl =
     (if \<not> memoryExists db memoryId then Inl (ForeignKeyConstraintFailed, db)
      else Inr (db\<lparr>embeddings :=
                    filter (\<lambda>e. emb_memoryId e \<noteq> memoryId) (embeddings db)
                      @ [\<lparr>emb_memoryId = memoryId, emb_vector = vec, emb_model = mdl\<rparr>]\<rparr>))"

definition embedMemory ::
  "(string \<Rightarrow> string + real list) \<Rightarrow> Database \<Rightarrow> nat \<Rightarrow> string \<Rightarrow> string + Database" where
  "embedMemory generateEmbedding db memoryId txt =
     (case generateEmbedding txt of
        Inl err \<Rightarrow> Inl err
      | Inr embedding \<Rightarrow>
          (case storeEmbedding db memoryId embedding ''text-embedding-3-small'' of
             Inl e \<Rightarrow> Inl (sqliteMessage (fst e))
           | Inr db' \<Rightarrow> Inr db'))"

text \<open>\<^verbatim>\<open>UPDATE memories SET level = ? WHERE id = ?\<close>, under \<^verbatim>\<open>CHECK(level BETWEEN 1 AND 3)\<close>.\<close>

definition updateLevel :: "Database \<Rightarrow> nat \<Rightarrow> nat \<Rightarrow> SqliteError \<times> Database + Database" where
  "updateLevel db memoryId newLevel =
     (if memoryExists db memoryId \<and> (newLevel < 1 \<or> 3 < newLevel) then Inl (CheckConstraintFailed, db)
      else Inr (updateMemoriesWhereId db memoryId (\<lambda>m. m\<lparr>level := newLevel\<rparr>)))"

fun linkSources :: "Database \<Rightarrow> int \<Rightarrow> nat \<Rightarrow> real \<Rightarrow> Memory list \<Rightarrow> SqliteError \<times> Database + Database" where
  "linkSources db now newId avgSim [] = Inr db"
| "linkSources db now newId avgSim (source # rest) =
     (case updateMemoryStatus db (mem_id source) Consolidated (Some newId) of
        Inl e \<Rightarrow> Inl e
      | Inr (db1, changed) \<Rightarrow>
          (case createRelationship db1 now (mem_id source) newId DerivedFrom avgSim of
             Inl e \<Rightarrow> Inl e
           | Inr (db2, row) \<Rightarrow> linkSources db2 now newId avgSim rest))"

text \<open>The body of the loop \<^verbatim>\<open>for (const cluster of clusters)\<close> of \<^verbatim>\<open>consolidate\<close>.\<close>

definition consolidateCluster ::
  "(string \<Rightarrow> string \<Rightarrow> nat \<Rightarrow> string) \<Rightarrow> (string \<Rightarrow> string + real list) \<Rightarrow> Database \<Rightarrow> int
     \<Rightarrow> string option \<Rightarrow> ConsolidationCluster \<Rightarrow> string list
     \<Rightarrow> SqliteError \<times> Database + (Database \<times> AbstractionCreated \<times> string list)" where
  "consolidateCluster quickEncode generateEmbedding db now projectHash' cluster warnings =
     (let sourceLevel = Max (set (map level (cl_memories cluster)));
          newLevel = min 3 (sourceLevel + 1);
          hasGlobal = list_ex (\<lambda>m. scope m = Global) (cl_memories cluster);
          scope' = (if hasGlobal then Global else Project);
          encoded' = quickEncode (suggestedAbstraction cluster) ''pattern''
                       (combinedImportance cluster)
      in case createMemory db now
                \<lparr>cm_type = Lesson, cm_encoded = encoded',
                 cm_decodedCache = Some (suggestedAbstraction cluster),
                 cm_scope = scope',
                 cm_projectHash = (if scope' = Project then projectHash' else None),
                 cm_importance = Some (combinedImportance cluster)\<rparr> of
           Inl e \<Rightarrow> Inl e
         | Inr (db1, newMemory) \<Rightarrow>
             (case updateLevel db1 (mem_id newMemory) newLevel of
                Inl e \<Rightarrow> Inl e
              | Inr db2 \<Rightarrow>
                  (case (case embedMemory generateEmbedding db2 (mem_id newMemory)
                                (suggestedAbstraction cluster) of
                           Inl err \<Rightarrow>
                             (db2, warnings @ [''Failed to embed consolidated memory #''
                                                @ string_of_nat (mem_id newMemory) @ '': '' @ err])
                         | Inr db3 \<Rightarrow> (db3, warnings)) of
                     (db3, warnings') \<Rightarrow>
                       (case linkSources db3 now (mem_id newMemory) (averageSimilarity cluster)
                               (cl_memories cluster) of
                          Inl e \<Rightarrow> Inl e
                        | Inr db4 \<Rightarrow>
                            Inr (db4,
                                 \<lparr>ac_id = mem_id newMemory, ac_level = newLevel,
                                  ac_content = take 200 (suggestedAbstraction cluster) @ ''...'',
                                  sourceCount = length (cl_memories cluster),
                                  ac_combinedImportance = combinedImportance cluster\<rparr>,
                                 warnings')))))"

fun consolidateLoop ::
  "(string \<Rightarrow> string \<Rightarrow> nat \<Rightarrow> string) \<Rightarrow> (string \<Rightarrow> string + real list) \<Rightarrow> Database \<Rightarrow> int
     \<Rightarrow> string option \<Rightarrow> ConsolidationCluster list \<Rightarrow> AbstractionCreated list \<Rightarrow> nat
     \<Rightarrow> string list
     \<Rightarrow> SqliteError \<times> Database + (Database \<times> AbstractionCreated list \<times> nat \<times> string list)" where
  "consolidateLoop quickEncode generateEmbedding db now projectHash' [] created totalConsolidated warnings =
     Inr (db, created, totalConsolidated, warnings)"
| "consolidateLoop quickEncode generateEmbedding db now projectHash' (cluster # rest) created
     totalConsolidated warnings =
     (case consolidateCluster quickEncode generateEmbedding db now projectHash' cluster warnings of
        Inl e \<Rightarrow> Inl e
      | Inr (db', abstraction, warnings') \<Rightarrow>
          consolidateLoop quickEncode generateEmbedding db' now projectHash' rest
            (created @ [abstraction]) (totalConsolidated + length (cl_memories cluster)) warnings')"

section \<open>Specification-side notions and sample stores\<close>

definition spec_score_of :: "int \<Rightarrow> Memory \<Rightarrow> real" where
  "spec_score_of now m =
     spec_score (importance m) (timesHelpful m) (timesUnhelpful m)
       (daysSinceLastAccess now m) (accessCount m)"

definition rescored :: "int \<Rightarrow> Memory \<Rightarrow> Memory" where
  "rescored now m = m\<lparr>usefulnessScore := computeUsefulness now m, lastDecay := Some now\<rparr>"

text \<open>A fresh memory of importance 5, created and last read at time 1000.\<close>

definition fresh_memory :: Memory where
  "fresh_memory =
     \<lparr>mem_id = 1, mem_type = Lesson, encoded = ''enc'', decodedCache = Some ''use strict mode'',
      scope = Global, projectHash = None, importance = 5, createdAt = 1000, accessedAt = 1000,
      accessCount = 0, usefulnessScore = 5.0, timesHelpful = 0, timesUnhelpful = 0,
      status = Active, parentId = None, level = 1, lastDecay = None\<rparr>"

definition empty_db :: Database where
  "empty_db = \<lparr>memories = [], memories_seq = 0, embeddings = [], auto_learn_log = [],
               memory_feedback = [], memory_feedback_seq = 0,
               memory_relationships = [], memory_relationships_seq = 0\<rparr>"

definition fresh_db :: Database where
  "fresh_db = empty_db\<lparr>memories := [fresh_memory], memories_seq := 1\<rparr>"

text \<open>The counter a feedback type increments.\<close>

definition counted :: "FeedbackType \<Rightarrow> Memory \<Rightarrow> Memory" where
  "counted fbType m =
     (if fbType = Helpful then m\<lparr>timesHelpful := timesHelpful m + 1\<rparr>
      else if fbType = Unhelpful \<or> fbType = Incorrect
        then m\<lparr>timesUnhelpful := timesUnhelpful m + 1\<rparr>
      else m)"

text \<open>The two conditions under which the safety filter of \<^verbatim>\<open>prune\<close> drops a candidate.\<close>

definition unsafe :: "int \<Rightarrow> Memory \<Rightarrow> bool" where
  "unsafe now m \<longleftrightarrow> importance m \<ge> 8 \<or> daysSinceAccess now (accessedAt m) < 7"

definition safetyWarning :: "int \<Rightarrow> Memory \<Rightarrow> string" where
  "safetyWarning now m =
     (if importance m \<ge> 8 then highImportanceWarning m else recentAccessWarning now m)"

definition prunedIds :: "PruneResult \<Rightarrow> nat list" where
  "prunedIds res = (case prunedMemories res of None \<Rightarrow> [] | Some l \<Rightarrow> map pm_id l)"

definition warningsOf :: "PruneResult \<Rightarrow> string list" where
  "warningsOf res = (case pr_warnings res of None \<Rightarrow> [] | Some w \<Rightarrow> w)"

definition clearParent :: "Memory \<Rightarrow> Memory" where
  "clearParent m = m\<lparr>parentId := None\<rparr>"

definition isPermanent :: "PruneInput \<Rightarrow> bool" where
  "isPermanent input = (case permanent_in input of None \<Rightarrow> False | Some b \<Rightarrow> b)"

definition isDryRun :: "PruneInput \<Rightarrow> bool" where
  "isDryRun input = (case dryRun_in input of None \<Rightarrow> False | Some b \<Rightarrow> b)"

text \<open>
  A store at time \<open>10368000000\<close> (120 days after time 0) with three active memories of
  score 1.5: one of importance 5 last read 120 days ago, one of importance 8 last read 120
  days ago, one of importance 5 last read 5 days ago; and one feedback event on the first.
\<close>

definition stale_memory :: Memory where
  "stale_memory =
     \<lparr>mem_id = 1, mem_type = Lesson, encoded = ''e1'', decodedCache = Some ''old note'',
      scope = Global, projectHash = None, importance = 5, createdAt = 0, accessedAt = 0,
      accessCount = 0, usefulnessScore = 1.5, timesHelpful = 0, timesUnhelpful = 1,
      status = Active, parentId = None, level = 1, lastDecay = None\<rparr>"

definition vital_memory :: Memory where
  "vital_memory = stale_memory\<lparr>mem_id := 2, importance := 8\<rparr>"

definition recent_memory :: Memory where
  "recent_memory = stale_memory\<lparr>mem_id := 3, accessedAt := 9936000000\<rparr>"

definition stale_event :: MemoryFeedback where
  "stale_event = \<lparr>fb_id = 1, fb_memoryId = 1, feedbackType = Unhelpful, fb_context = None,
                  fb_timestamp = 0\<rparr>"

definition prune_db :: Database where
  "prune_db = empty_db\<lparr>memories := [stale_memory, vital_memory, recent_memory],
                        memories_seq := 3,
                        memory_feedback := [stale_event], memory_feedback_seq := 1\<rparr>"

definition prune_now :: int where
  "prune_now = 10368000000"

definition prune_input :: PruneInput where
  "prune_input = \<lparr>minUsefulness = Some 2.0, maxAge = Some 90, dryRun_in = None,
                  permanent_in = None\<rparr>"

text \<open>A store with one co-access edge of strength 0.2 between two memories.\<close>

definition pair_edge :: MemoryRelationship where
  "pair_edge = \<lparr>rel_id = 1, sourceId = 1, targetId = 2, relationship = Similar,
                strength = 0.2, rel_createdAt = 0\<rparr>"

definition edge_db :: Database where
  "edge_db = empty_db\<lparr>memories := [stale_memory, vital_memory], memories_seq := 2,
                       memory_relationships := [pair_edge], memory_relationships_seq := 1\<rparr>"

text \<open>
  The same store with the edge at strength 0.1, where \<^verbatim>\<open>recordCoAccess\<close> with its default
  increment creates an edge, and which is also the default floor of the decay.
\<close>

definition floor_edge :: MemoryRelationship where
  "floor_edge = pair_edge\<lparr>strength := 0.1\<rparr>"

definition floor_db :: Database where
  "floor_db = edge_db\<lparr>memory_relationships := [floor_edge]\<rparr>"

text \<open>
  The \<^verbatim>\<open>similar\<close> rows stored for an ordered pair of ids, and what one co-access does to
  them: where there was none, one new row at the increment; otherwise the first row is
  strengthened, capped at 10, and the others stay.
\<close>

definition similarRows :: "Database \<Rightarrow> nat \<Rightarrow> nat \<Rightarrow> MemoryRelationship list" where
  "similarRows db s t =
     filter (\<lambda>r. sourceId r = s \<and> targetId r = t \<and> relationship r = Similar)
       (memory_relationships db)"

definition strengthened ::
  "int \<Rightarrow> real \<Rightarrow> nat \<Rightarrow> nat \<Rightarrow> MemoryRelationship list \<Rightarrow> MemoryRelationship list \<Rightarrow> bool" where
  "strengthened now inc s t before after =
     (case before of
        [] \<Rightarrow> (\<exists>i. after = [\<lparr>rel_id = i, sourceId = s, targetId = t, relationship = Similar,
                              strength = inc, rel_createdAt = now\<rparr>])
      | e # es \<Rightarrow> after = e\<lparr>strength := min 10 (strength e + inc)\<rparr> # es)"

definition coAccessed :: "nat set \<Rightarrow> MemoryRelationship \<Rightarrow> bool" where
  "coAccessed ids r \<longleftrightarrow>
     relationship r = Similar \<and> sourceId r \<in> ids \<and> targetId r \<in> ids \<and> sourceId r < targetId r"

text \<open>
  The effect of a run of co-accesses on a set \<open>K\<close> of ordered pairs: the rows of each pair
  in \<open>K\<close> are strengthened once, whatever is selected from the other rows is unchanged, and
  no other table is written.
\<close>

definition coAccessEffect :: "int \<Rightarrow> real \<Rightarrow> (nat \<times> nat) set \<Rightarrow> Database \<Rightarrow> Database \<Rightarrow> bool" where
  "coAccessEffect now inc K db db' \<longleftrightarrow>
     (\<forall>s t. (s, t) \<in> K \<longrightarrow>
        strengthened now inc s t (similarRows db s t) (similarRows db' s t))
   \<and> (\<forall>Q. (\<forall>r. relationship r = Similar \<and> (sourceId r, targetId r) \<in> K \<longrightarrow> \<not> Q r)
          \<longrightarrow> filter Q (memory_relationships db') = filter Q (memory_relationships db))
   \<and> distinct (map rel_id (memory_relationships db'))
   \<and> memories db' = memories db \<and> memory_feedback db' = memory_feedback db
   \<and> embeddings db' = embeddings db"






text \<open>
  The store an operation leaves behind, whether it returned or threw: statements run
  outside a transaction, so what was written before a throw stays written. The second
  form is for operations without a result.
\<close>

definition storeAfter :: "SqliteError \<times> Database + Database \<times> 'a \<Rightarrow> Database" where
  "storeAfter r = (case r of Inl e \<Rightarrow> snd e | Inr ok \<Rightarrow> fst ok)"

definition storeAfterVoid :: "SqliteError \<times> Database + Database \<Rightarrow> Database" where
  "storeAfterVoid r = (case r of Inl e \<Rightarrow> snd e | Inr db \<Rightarrow> db)"

text \<open>
  What consolidation does to a source memory: it gets the status \<^verbatim>\<open>consolidated\<close> and
  the new abstraction as parent.
\<close>

definition consolidatedInto :: "nat \<Rightarrow> Memory \<Rightarrow> Memory" where
  "consolidatedInto newId m = m\<lparr>status := Consolidated, parentId := Some newId\<rparr>"

text \<open>
  A cluster of the two memories of the store with one edge, as \<^verbatim>\<open>findSimilarClusters\<close>
  builds it: combined importance \<open>min 9 (8 + floor (log2 2))\<close>.
\<close>

definition pair_cluster :: ConsolidationCluster where
  "pair_cluster = \<lparr>cl_memories = [stale_memory, vital_memory], averageSimilarity = 0.9,
                    combinedImportance = 9, suggestedAbstraction = ''old notes''\<rparr>"

section \<open>Properties\<close>

section \<open>Lookup and update by id\<close>

lemma find_map_update:
  assumes "\<And>m. mem_id (f m) = mem_id m"
  shows "find (\<lambda>m. mem_id m = j) (map (\<lambda>m. if mem_id m = i then f m else m) ms)
        = (if i = j then map_option f (find (\<lambda>m. mem_id m = j) ms)
           else find (\<lambda>m. mem_id m = j) ms)"
  using assms by (induction ms) auto

lemma selectMemory_update:
  "(\<And>m. mem_id (f m) = mem_id m) \<Longrightarrow>
   selectMemory (updateMemoriesWhereId db i f) j =
     (if i = j then map_option f (selectMemory db j) else selectMemory db j)"
  by (simp add: selectMemory_def updateMemoriesWhereId_def find_map_update)

lemma find_None_map_id:
  "find (\<lambda>m. mem_id m = i) ms = None \<Longrightarrow> map (\<lambda>m. if mem_id m = i then f m else m) ms = ms"
  by (induction ms) (auto split: if_splits)

lemma find_distinct_row:
  "distinct (map mem_id ms) \<Longrightarrow> find (\<lambda>m. mem_id m = i) ms = Some row \<Longrightarrow>
   m \<in> set ms \<Longrightarrow> mem_id m = i \<Longrightarrow> m = row"
  by (induction ms) (auto split: if_splits simp: find_Some_iff image_iff)

section \<open>Usefulness Scorer: the score written is the specified one\<close>

lemma computeUsefulness_spec: "computeUsefulness now row = spec_score_of now row"
  by (simp add: computeUsefulness_def spec_score_of_def spec_score_def clamp_def
      daysSinceLastAccess_def Let_def algebra_simps min_def max_def)

lemma spec_score_range: "1 \<le> spec_score i h u d a \<and> spec_score i h u d a \<le> 9"
  by (simp add: spec_score_def clamp_def Let_def)

lemma spec_score_scenario: "spec_score 5 0 0 0 0 = 4"
  by (simp add: spec_score_def clamp_def Let_def)

lemma rescored_idem: "rescored now (rescored now m) = rescored now m"
  by (simp add: rescored_def computeUsefulness_def)

lemma mem_id_rescored: "mem_id (rescored now m) = mem_id m"
  by (simp add: rescored_def)

lemma updateUsefulnessScore_memories:
  assumes "distinct (map mem_id (memories db))"
  shows "memories (fst (updateUsefulnessScore db now i))
         = map (\<lambda>m. if mem_id m = i then rescored now m else m) (memories db)"
proof (cases "selectMemory db i")
  case None
  then show ?thesis
    by (simp add: updateUsefulnessScore_def selectMemory_def find_None_map_id)
next
  case (Some row)
  have "\<And>m. m \<in> set (memories db) \<Longrightarrow> mem_id m = i \<Longrightarrow> m = row"
    using find_distinct_row[OF assms] Some by (simp add: selectMemory_def)
  then show ?thesis using Some
    by (auto simp: updateUsefulnessScore_def updateMemoriesWhereId_def Let_def rescored_def)
qed

lemma applyDecayLoop_memories:
  "distinct (map mem_id (memories db)) \<Longrightarrow>
   memories (applyDecayLoop db now is)
     = map (\<lambda>m. if mem_id m \<in> set is then rescored now m else m) (memories db)"
proof (induction "is" arbitrary: db)
  case Nil
  then show ?case by simp
next
  case (Cons i "is")
  let ?db1 = "fst (updateUsefulnessScore db now i)"
  have m1: "memories ?db1 = map (\<lambda>m. if mem_id m = i then rescored now m else m) (memories db)"
    by (rule updateUsefulnessScore_memories[OF Cons.prems])
  have "map mem_id (memories ?db1) = map mem_id (memories db)"
    by (simp add: m1 mem_id_rescored cong: if_cong)
  then have d1: "distinct (map mem_id (memories ?db1))" using Cons.prems by simp
  show ?case
    by (simp add: Cons.IH[OF d1] m1 mem_id_rescored rescored_idem)
qed

lemma applyDecayToAll_memories:
  assumes "distinct (map mem_id (memories db))"
  shows "memories (fst (applyDecayToAll db now))
         = map (\<lambda>m. if status m = Active then rescored now m else m) (memories db)"
proof -
  have "\<And>m. m \<in> set (memories db) \<Longrightarrow>
          (mem_id m \<in> mem_id ` {x \<in> set (memories db). status x = Active}) = (status m = Active)"
    using assms by (auto simp: distinct_map inj_on_def)
  then show ?thesis
    by (simp add: applyDecayToAll_def Let_def applyDecayLoop_memories[OF assms])
qed

text \<open>
  Claim C1. For a stored memory, \<^verbatim>\<open>updateUsefulnessScore\<close> returns and writes the score
  \<open>clamp (importance * (0.5 + 0.3 * helpfulRatio + 0.15 * recencyBoost + 0.05 * accessBoost)) 1 9\<close>
  with \<open>helpfulRatio = (timesHelpful + 1) / (timesHelpful + timesUnhelpful + 2)\<close>,
  \<open>recencyBoost = 0.98 ^ min daysSinceLastAccess 365\<close> and
  \<open>accessBoost = ln (accessCount + 1) / 10\<close> (this is \<open>spec_score_of\<close>); the batch decay pass
  writes that score to every active memory and touches no other; the score lies in
  \<open>[1, 9]\<close>; and a memory of importance 5 with no feedback, read just now and never
  counted as accessed, scores 4.
\<close>

theorem scorer_writes_specified_score:
  "(\<forall>row. selectMemory db memoryId = Some row \<longrightarrow>
       snd (updateUsefulnessScore db now memoryId) = spec_score_of now row
     \<and> selectMemory (fst (updateUsefulnessScore db now memoryId)) memoryId
         = Some (row\<lparr>usefulnessScore := spec_score_of now row, lastDecay := Some now\<rparr>))
   \<and> (distinct (map mem_id (memories db)) \<longrightarrow>
        memories (fst (applyDecayToAll db now))
          = map (\<lambda>m. if status m = Active
                      then m\<lparr>usefulnessScore := spec_score_of now m, lastDecay := Some now\<rparr>
                      else m) (memories db))
   \<and> 1 \<le> spec_score_of now m \<and> spec_score_of now m \<le> 9
   \<and> (importance m = 5 \<and> timesHelpful m = 0 \<and> timesUnhelpful m = 0 \<and> accessedAt m = now
        \<and> accessCount m = 0 \<longrightarrow> spec_score_of now m = 4)"
proof (intro conjI allI impI)
  fix row assume sel: "selectMemory db memoryId = Some row"
  show "snd (updateUsefulnessScore db now memoryId) = spec_score_of now row"
    using sel by (simp add: updateUsefulnessScore_def Let_def computeUsefulness_spec)
  show "selectMemory (fst (updateUsefulnessScore db now memoryId)) memoryId
          = Some (row\<lparr>usefulnessScore := spec_score_of now row, lastDecay := Some now\<rparr>)"
    using sel
    by (simp add: updateUsefulnessScore_def Let_def computeUsefulness_spec selectMemory_update)
next
  assume "distinct (map mem_id (memories db))"
  then show "memories (fst (applyDecayToAll db now))
          = map (\<lambda>m. if status m = Active
                      then m\<lparr>usefulnessScore := spec_score_of now m, lastDecay := Some now\<rparr>
                      else m) (memories db)"
    by (simp add: applyDecayToAll_memories rescored_def computeUsefulness_spec)
next
  show "1 \<le> spec_score_of now m" "spec_score_of now m \<le> 9"
    using spec_score_range by (simp_all add: spec_score_of_def)
next
  assume "importance m = 5 \<and> timesHelpful m = 0 \<and> timesUnhelpful m = 0 \<and> accessedAt m = now
        \<and> accessCount m = 0"
  then show "spec_score_of now m = 4"
    using spec_score_scenario by (simp add: spec_score_of_def daysSinceLastAccess_def)
qed

theorem scorer_writes_specified_score_witness:
  "selectMemory fresh_db 1 = Some fresh_memory
   \<and> distinct (map mem_id (memories fresh_db))
   \<and> snd (updateUsefulnessScore fresh_db 1000 1) = 4
   \<and> selectMemory (fst (updateUsefulnessScore fresh_db 1000 1)) 1
       = Some (fresh_memory\<lparr>usefulnessScore := 4, lastDecay := Some 1000\<rparr>)
   \<and> memories (fst (applyDecayToAll fresh_db 1000))
       = [fresh_memory\<lparr>usefulnessScore := 4, lastDecay := Some 1000\<rparr>]"
proof -
  have sel: "selectMemory fresh_db 1 = Some fresh_memory"
    by (simp add: selectMemory_def fresh_db_def empty_db_def fresh_memory_def)
  have dist: "distinct (map mem_id (memories fresh_db))"
    by (simp add: fresh_db_def empty_db_def)
  have vals: "importance fresh_memory = 5 \<and> timesHelpful fresh_memory = 0
      \<and> timesUnhelpful fresh_memory = 0 \<and> accessedAt fresh_memory = 1000
      \<and> accessCount fresh_memory = 0" "status fresh_memory = Active"
    by (simp_all add: fresh_memory_def)
  have mems: "memories fresh_db = [fresh_memory]"
    by (simp add: fresh_db_def empty_db_def)
  show ?thesis
    using scorer_writes_specified_score[of fresh_db 1 1000 fresh_memory] sel dist vals
    by (simp add: mems)
qed

section \<open>Retrieval and feedback\<close>

lemma updateMemoriesWhereId_fields [simp]:
  "memories_seq (updateMemoriesWhereId db i f) = memories_seq db"
  "embeddings (updateMemoriesWhereId db i f) = embeddings db"
  "auto_learn_log (updateMemoriesWhereId db i f) = auto_learn_log db"
  "memory_feedback (updateMemoriesWhereId db i f) = memory_feedback db"
  "memory_feedback_seq (updateMemoriesWhereId db i f) = memory_feedback_seq db"
  "memory_relationships (updateMemoriesWhereId db i f) = memory_relationships db"
  "memory_relationships_seq (updateMemoriesWhereId db i f) = memory_relationships_seq db"
  by (simp_all add: updateMemoriesWhereId_def)

lemma selectMemory_memories_cong:
  "memories db' = memories db \<Longrightarrow> selectMemory db' i = selectMemory db i"
  by (simp add: selectMemory_def)

lemma memoryExists_update:
  "(\<And>m. mem_id (f m) = mem_id m) \<Longrightarrow>
   memoryExists (updateMemoriesWhereId db i f) j = memoryExists db j"
  by (simp add: memoryExists_def selectMemory_update)

lemma getMemory_Some:
  "selectMemory db i = Some row \<Longrightarrow>
   getMemory db now i
     = (updateMemoriesWhereId db i (\<lambda>m. m\<lparr>accessedAt := now, accessCount := accessCount m + 1\<rparr>),
        Some row)"
  by (simp add: getMemory_def)

lemma getMemory_None: "selectMemory db i = None \<Longrightarrow> getMemory db now i = (db, None)"
  by (simp add: getMemory_def)

lemma updateUsefulnessScore_select:
  "selectMemory db i = Some row \<Longrightarrow>
   selectMemory (fst (updateUsefulnessScore db now i)) i = Some (rescored now row)"
  by (simp add: updateUsefulnessScore_def Let_def selectMemory_update rescored_def)

lemma updateUsefulnessScore_feedback [simp]:
  "memory_feedback (fst (updateUsefulnessScore db now i)) = memory_feedback db"
  by (simp add: updateUsefulnessScore_def Let_def split: option.splits)

lemma recordFeedback_select:
  assumes sel: "selectMemory db i = Some row"
  shows "\<exists>db' ev. recordFeedback db now i fbType ctx = Inr (db', ev)
           \<and> selectMemory db' i = Some (rescored now (counted fbType row))
           \<and> memory_feedback db' = memory_feedback db @ [ev]
           \<and> fb_memoryId ev = i \<and> feedbackType ev = fbType \<and> fb_context ev = ctx
           \<and> fb_timestamp ev = now"
proof -
  define ev where "ev = \<lparr>fb_id = autoincrement (memory_feedback_seq db) (map fb_id (memory_feedback db)),
      fb_memoryId = i, feedbackType = fbType, fb_context = ctx, fb_timestamp = now\<rparr>"
  define db1 where "db1 = db\<lparr>memory_feedback := memory_feedback db @ [ev],
      memory_feedback_seq := fb_id ev\<rparr>"
  define db2 where "db2 = (if fbType = Helpful then
                      updateMemoriesWhereId db1 i (\<lambda>m. m\<lparr>timesHelpful := timesHelpful m + 1\<rparr>)
                    else if fbType = Unhelpful \<or> fbType = Incorrect then
                      updateMemoriesWhereId db1 i (\<lambda>m. m\<lparr>timesUnhelpful := timesUnhelpful m + 1\<rparr>)
                    else db1)"
  have r: "recordFeedback db now i fbType ctx = Inr (fst (updateUsefulnessScore db2 now i), ev)"
    using sel by (simp add: recordFeedback_def memoryExists_def Let_def db2_def db1_def ev_def)
  have s1: "selectMemory db1 i = Some row"
    using sel by (simp add: db1_def selectMemory_def)
  have s2: "selectMemory db2 i = Some (counted fbType row)"
    using s1 by (simp add: db2_def selectMemory_update counted_def)
  have f2: "memory_feedback db2 = memory_feedback db @ [ev]"
    by (simp add: db2_def db1_def)
  show ?thesis
    using r updateUsefulnessScore_select[OF s2] f2 by (simp add: ev_def)
qed

text \<open>
  Claim C10. \<^verbatim>\<open>getMemory\<close> on a stored memory, whatever its status, returns the row as
  it was and writes \<open>accessedAt = now\<close> and \<open>accessCount + 1\<close>. The feedback tool reads
  the memory before and after recording, so one feedback event on a stored memory leaves
  its \<open>accessCount\<close> two higher and its \<open>accessedAt\<close> at the current time, and the score
  written by that event was computed from the first of these reads: zero days since
  access and the access count already one higher.
\<close>

theorem getMemory_counts_access:
  "(\<forall>row. selectMemory db i = Some row \<longrightarrow>
       snd (getMemory db now i) = Some row
     \<and> selectMemory (fst (getMemory db now i)) i
         = Some (row\<lparr>accessedAt := now, accessCount := accessCount row + 1\<rparr>))
   \<and> (\<forall>row. selectMemory db i = Some row \<longrightarrow>
        (\<exists>db' res row'.
            feedback db now \<lparr>memoryIds = Some [i], feedback_in = Some fbType, context_in = ctx\<rparr>
              = Inr (db', res)
          \<and> selectMemory db' i = Some row'
          \<and> accessCount row' = accessCount row + 2
          \<and> accessedAt row' = now
          \<and> usefulnessScore row'
              = spec_score (importance row) (timesHelpful row') (timesUnhelpful row') 0
                  (accessCount row + 1)))"
proof (intro conjI allI impI)
  fix row assume sel: "selectMemory db i = Some row"
  show "snd (getMemory db now i) = Some row"
    using sel by (simp add: getMemory_Some)
  show "selectMemory (fst (getMemory db now i)) i
         = Some (row\<lparr>accessedAt := now, accessCount := accessCount row + 1\<rparr>)"
    using sel by (simp add: getMemory_Some selectMemory_update)
next
  fix row assume sel: "selectMemory db i = Some row"
  let ?acc = "\<lambda>m::Memory. m\<lparr>accessedAt := now, accessCount := accessCount m + 1\<rparr>"
  define db1 where "db1 = updateMemoriesWhereId db i ?acc"
  have g1: "getMemory db now i = (db1, Some row)"
    using sel by (simp add: getMemory_Some db1_def)
  have s1: "selectMemory db1 i = Some (?acc row)"
    using sel by (simp add: db1_def selectMemory_update)
  from recordFeedback_select[OF s1, of now fbType ctx]
  obtain db2 ev where r: "recordFeedback db1 now i fbType ctx = Inr (db2, ev)"
    and s2: "selectMemory db2 i = Some (rescored now (counted fbType (?acc row)))"
    by blast
  define row2 where "row2 = rescored now (counted fbType (?acc row))"
  define db3 where "db3 = updateMemoriesWhereId db2 i ?acc"
  have g3: "getMemory db2 now i = (db3, Some row2)"
    using s2 by (simp add: getMemory_Some db3_def row2_def)
  have s3: "selectMemory db3 i = Some (?acc row2)"
    using s2 by (simp add: db3_def selectMemory_update row2_def)
  have fb: "\<exists>res. feedback db now \<lparr>memoryIds = Some [i], feedback_in = Some fbType, context_in = ctx\<rparr>
              = Inr (db3, res)"
    by (simp add: feedback_def g1 r g3)
  have score: "usefulnessScore (?acc row2)
      = spec_score (importance row) (timesHelpful (?acc row2)) (timesUnhelpful (?acc row2)) 0
          (accessCount row + 1)"
    by (simp add: row2_def rescored_def computeUsefulness_spec spec_score_of_def counted_def
        daysSinceLastAccess_def)
  show "\<exists>db' res row'.
            feedback db now \<lparr>memoryIds = Some [i], feedback_in = Some fbType, context_in = ctx\<rparr>
              = Inr (db', res)
          \<and> selectMemory db' i = Some row'
          \<and> accessCount row' = accessCount row + 2
          \<and> accessedAt row' = now
          \<and> usefulnessScore row'
              = spec_score (importance row) (timesHelpful row') (timesUnhelpful row') 0
                  (accessCount row + 1)"
    using fb s3 score
    by (auto simp: row2_def rescored_def counted_def)
qed

theorem getMemory_counts_access_witness:
  "selectMemory fresh_db 1 = Some fresh_memory
   \<and> snd (getMemory fresh_db 2000 1) = Some fresh_memory
   \<and> selectMemory (fst (getMemory fresh_db 2000 1)) 1
       = Some (fresh_memory\<lparr>accessedAt := 2000, accessCount := 1\<rparr>)
   \<and> (\<exists>db' res row'.
          feedback fresh_db 2000 \<lparr>memoryIds = Some [1], feedback_in = Some Helpful, context_in = None\<rparr>
            = Inr (db', res)
        \<and> selectMemory db' 1 = Some row' \<and> accessCount row' = 2 \<and> accessedAt row' = 2000)"
proof -
  have sel: "selectMemory fresh_db 1 = Some fresh_memory"
    by (simp add: selectMemory_def fresh_db_def empty_db_def fresh_memory_def)
  have cnt: "accessCount fresh_memory = 0"
    by (simp add: fresh_memory_def)
  show ?thesis
    using getMemory_counts_access[of fresh_db 1 2000 Helpful None] sel cnt
    by (auto simp: numeral_2_eq_2)
qed

text \<open>
  Claim C4, amended. The code has no not-found error. When the memory id resolves to no
  stored memory, \<^verbatim>\<open>recordFeedback\<close> does no lookup: its first statement, the insert into
  \<^verbatim>\<open>memory_feedback\<close>, is rejected by the store because \<^verbatim>\<open>memory_id\<close> references no
  memory, and that foreign-key constraint error of the store is what reaches the caller;
  the store is as it was, no event appended and no counter changed. The feedback tool in
  front of it does not fail for such an id: it skips the id with the warning
  \<^verbatim>\<open>Memory #id not found\<close>, returns success with nothing recorded, and also leaves the
  store as it was.
\<close>

theorem recordFeedback_unresolved_id:
  "selectMemory db memoryId = None \<Longrightarrow>
     recordFeedback db now memoryId fbType ctx = Inl (ForeignKeyConstraintFailed, db)
   \<and> feedback db now \<lparr>memoryIds = Some [memoryId], feedback_in = Some fbType, context_in = ctx\<rparr>
       = Inr (db, \<lparr>fr_success = True, feedbackRecorded = 0, memoriesUpdated = [],
                  fr_warnings = Some [''Memory #'' @ string_of_nat memoryId @ '' not found'']\<rparr>)"
  by (simp add: recordFeedback_def memoryExists_def feedback_def getMemory_None)

theorem recordFeedback_unresolved_id_witness:
  "selectMemory fresh_db 7 = None
   \<and> recordFeedback fresh_db 2000 7 Helpful None = Inl (ForeignKeyConstraintFailed, fresh_db)
   \<and> feedback fresh_db 2000 \<lparr>memoryIds = Some [7], feedback_in = Some Helpful, context_in = None\<rparr>
       = Inr (fresh_db, \<lparr>fr_success = True, feedbackRecorded = 0, memoriesUpdated = [],
                        fr_warnings = Some [''Memory #7 not found'']\<rparr>)"
proof -
  have sel: "selectMemory fresh_db 7 = None"
    by (simp add: selectMemory_def fresh_db_def empty_db_def fresh_memory_def)
  have str: "string_of_nat 7 = ''7''"
    by (simp add: string_of_nat.simps digit_char_def)
  show ?thesis
    using recordFeedback_unresolved_id[of fresh_db 7 2000 Helpful None] sel str by simp
qed

text \<open>
  Claim C4 as stated fails: on the sample store, feedback for the id 9, which no memory
  has, makes \<^verbatim>\<open>recordFeedback\<close> fail with the store's foreign-key constraint error, not
  with a not-found error, and makes the feedback tool return success.
\<close>

theorem feedback_unresolved_id_not_notfound:
  "selectMemory prune_db 9 = None
   \<and> recordFeedback prune_db 5000 9 Incorrect (Some ''wrong'')
       = Inl (ForeignKeyConstraintFailed, prune_db)
   \<and> sqliteMessage ForeignKeyConstraintFailed = ''SqliteError: FOREIGN KEY constraint failed''
   \<and> feedback prune_db 5000
         \<lparr>memoryIds = Some [9], feedback_in = Some Incorrect, context_in = Some ''wrong''\<rparr>
       = Inr (prune_db, \<lparr>fr_success = True, feedbackRecorded = 0, memoriesUpdated = [],
                        fr_warnings = Some [''Memory #9 not found'']\<rparr>)"
proof -
  have sel: "selectMemory prune_db 9 = None"
    by (simp add: selectMemory_def prune_db_def empty_db_def stale_memory_def vital_memory_def
        recent_memory_def)
  have str: "string_of_nat 9 = ''9''"
    by (simp add: string_of_nat.simps digit_char_def)
  show ?thesis
    using sel str
    by (simp add: recordFeedback_def memoryExists_def feedback_def getMemory_None sqliteMessage_def)
qed

section \<open>Pruning Engine\<close>

lemma safetyFilter_eq:
  "safetyFilter now ms w
     = (filter (\<lambda>m. \<not> unsafe now m) ms, w @ map (safetyWarning now) (filter (unsafe now) ms))"
  by (induction ms arbitrary: w) (auto simp: unsafe_def safetyWarning_def)

lemma daysSinceAccess_lt_7:
  "daysSinceAccess now a < 7 \<longleftrightarrow> now - a < 604800000"
proof -
  have "daysSinceAccess now a = (now - a) div 86400000"
    unfolding daysSinceAccess_def
    using floor_divide_of_int_eq[of "now - a" 86400000, where ?'a = real] by simp
  then show ?thesis by linarith
qed

lemma set_getLowUsefulnessMemories:
  "m \<in> set (getLowUsefulnessMemories db now u d l) \<Longrightarrow>
   m \<in> set (memories db) \<and> status m = Active \<and> usefulnessScore m < u
   \<and> real_of_int (accessedAt m) < real_of_int now - d * 24 * 60 * 60 * 1000 \<and> importance m < 8"
  by (auto simp: getLowUsefulnessMemories_def Let_def dest!: in_set_takeD)

lemma set_pruneCandidates:
  "m \<in> set (pruneCandidates db now input ph) \<Longrightarrow>
   m \<in> set (memories db) \<and> status m = Active \<and> importance m < 8"
  by (auto simp: pruneCandidates_def Let_def split: option.splits if_splits
      dest!: set_getLowUsefulnessMemories)

lemma archive_result:
  "updateMemoryStatus db j Archived None
     = Inr (updateMemoriesWhereId db j (\<lambda>m. m\<lparr>status := Archived, parentId := None\<rparr>),
            memoryExists db j)"
  by (simp add: updateMemoryStatus_def)

lemma pruneLoop_total: "\<exists>db' n. pruneLoop db perm ms k = Inr (db', n)"
  by (induction ms arbitrary: db k) (auto simp: archive_result)

lemma memoryExists_iff: "memoryExists db i \<longleftrightarrow> i \<in> mem_id ` set (memories db)"
  by (auto simp: memoryExists_def selectMemory_def find_None_iff)

lemma clearParent_nulled:
  "clearParent (if parentId m = Some j then m\<lparr>parentId := None\<rparr> else m) = clearParent m"
  by (simp add: clearParent_def)

lemma mem_id_nulled:
  "mem_id (if parentId m = Some j then m\<lparr>parentId := None\<rparr> else m) = mem_id m"
  by simp

lemma deleteMemory_memories:
  "memories (fst (deleteMemory db j))
     = (if memoryExists db j
        then map (\<lambda>m. if parentId m = Some j then m\<lparr>parentId := None\<rparr> else m)
               (filter (\<lambda>m. mem_id m \<noteq> j) (memories db))
        else memories db)"
  by (simp add: deleteMemory_def)

lemma rows_after_delete:
  assumes "\<And>m. mem_id (g m) = mem_id m" "\<And>m. clearParent (g m) = clearParent m" "i \<noteq> j"
  shows "map clearParent (filter (\<lambda>m. mem_id m = i) (map g (filter (\<lambda>m. mem_id m \<noteq> j) ms)))
        = map clearParent (filter (\<lambda>m. mem_id m = i) ms)"
  using assms by (induction ms) auto

lemma deleteMemory_other_rows:
  assumes "i \<noteq> j"
  shows "map clearParent (filter (\<lambda>m. mem_id m = i) (memories (fst (deleteMemory db j))))
     = map clearParent (filter (\<lambda>m. mem_id m = i) (memories db))"
proof (cases "memoryExists db j")
  case True
  then have "memories (fst (deleteMemory db j))
     = map (\<lambda>m. if parentId m = Some j then m\<lparr>parentId := None\<rparr> else m)
               (filter (\<lambda>m. mem_id m \<noteq> j) (memories db))"
    by (simp only: deleteMemory_memories if_True)
  then show ?thesis
    using rows_after_delete[OF mem_id_nulled clearParent_nulled assms] by (simp only:)
next
  case False
  then have "memories (fst (deleteMemory db j)) = memories db"
    by (simp only: deleteMemory_memories if_False)
  then show ?thesis by (simp only:)
qed

lemma rows_after_update:
  assumes "\<And>m. mem_id (f m) = mem_id m" "i \<noteq> j"
  shows "filter (\<lambda>m. mem_id m = i) (map (\<lambda>m. if mem_id m = j then f m else m) ms)
       = filter (\<lambda>m. mem_id m = i) ms"
  using assms by (induction ms) auto

lemma update_other_rows:
  assumes "\<And>m. mem_id (f m) = mem_id m" "i \<noteq> j"
  shows "filter (\<lambda>m. mem_id m = i) (memories (updateMemoriesWhereId db j f))
     = filter (\<lambda>m. mem_id m = i) (memories db)"
  using rows_after_update[OF assms] by (simp add: updateMemoriesWhereId_def)


lemma pruneLoop_other_rows:
  "pruneLoop db perm ms k = Inr (db', n) \<Longrightarrow> i \<notin> mem_id ` set ms \<Longrightarrow>
   map clearParent (filter (\<lambda>m. mem_id m = i) (memories db'))
     = map clearParent (filter (\<lambda>m. mem_id m = i) (memories db))
   \<and> (\<not> perm \<longrightarrow> filter (\<lambda>m. mem_id m = i) (memories db')
                    = filter (\<lambda>m. mem_id m = i) (memories db))"
proof (induction ms arbitrary: db k)
  case Nil
  then show ?case by simp
next
  case (Cons m ms)
  from Cons.prems(2) have ne: "i \<noteq> mem_id m" and rest: "i \<notin> mem_id ` set ms"
    by auto
  show ?case
  proof (cases perm)
    case True
    with Cons.prems have "pruneLoop (fst (deleteMemory db (mem_id m))) perm ms (k + 1) = Inr (db', n)"
      by simp
    from Cons.IH[OF this rest] True show ?thesis
      by (simp add: deleteMemory_other_rows[OF ne])
  next
    case False
    let ?f = "\<lambda>m::Memory. m\<lparr>status := Archived, parentId := None\<rparr>"
    from False Cons.prems have "pruneLoop (updateMemoriesWhereId db (mem_id m) ?f) perm ms (k + 1)
        = Inr (db', n)"
      by (simp add: archive_result)
    from Cons.IH[OF this rest] False show ?thesis
      by (simp add: update_other_rows[of ?f, OF _ ne])
  qed
qed

lemma prune_shape:
  "\<exists>db' res. prune db now input ph = Inr (db', res)
     \<and> prunedIds res
         = map mem_id (filter (\<lambda>m. \<not> unsafe now m) (pruneCandidates db now input ph))
     \<and> warningsOf res
         = (let w = map (safetyWarning now) (filter (unsafe now) (pruneCandidates db now input ph))
            in if w \<noteq> [] then w
               else if filter (\<lambda>m. \<not> unsafe now m) (pruneCandidates db now input ph) = []
                 then [''No memories eligible for pruning.''] else [])
     \<and> (db' = db
        \<or> \<not> isDryRun input
          \<and> (\<exists>n. pruneLoop db (isPermanent input)
                    (filter (\<lambda>m. \<not> unsafe now m) (pruneCandidates db now input ph)) 0
                  = Inr (db', n)))"
proof -
  define safe where "safe = filter (\<lambda>m. \<not> unsafe now m) (pruneCandidates db now input ph)"
  define w where "w = map (safetyWarning now) (filter (unsafe now) (pruneCandidates db now input ph))"
  obtain db1 n where l: "pruneLoop db (isPermanent input) safe 0 = Inr (db1, n)"
    using pruneLoop_total by blast
  have sf: "safetyFilter now (pruneCandidates db now input ph) [] = (safe, w)"
    by (simp add: safetyFilter_eq safe_def w_def)
  have ids: "map (pm_id \<circ> prunedDetail now) safe = map mem_id safe"
    by (simp add: prunedDetail_def Let_def comp_def)
  have flags: "(case dryRun_in input of None \<Rightarrow> False | Some b \<Rightarrow> b) = isDryRun input"
    "(case permanent_in input of None \<Rightarrow> False | Some b \<Rightarrow> b) = isPermanent input"
    by (simp_all add: isDryRun_def isPermanent_def)
  consider (none) "safe = []" | (dry) "safe \<noteq> []" "isDryRun input"
    | (live) "safe \<noteq> []" "\<not> isDryRun input"
    by blast
  then have "\<exists>db' res. prune db now input ph = Inr (db', res)
     \<and> prunedIds res = map mem_id safe
     \<and> warningsOf res
         = (if w \<noteq> [] then w
            else if safe = [] then [''No memories eligible for pruning.''] else [])
     \<and> (db' = db \<or> \<not> isDryRun input
          \<and> (\<exists>n. pruneLoop db (isPermanent input) safe 0 = Inr (db', n)))"
  proof cases
    case none
    then show ?thesis
      by (simp add: prune_def flags sf prunedIds_def warningsOf_def)
  next
    case dry
    then show ?thesis
      by (simp add: prune_def flags sf prunedIds_def warningsOf_def ids Let_def)
  next
    case live
    then show ?thesis
      by (simp add: prune_def flags sf prunedIds_def warningsOf_def ids Let_def l)
  qed
  then show ?thesis by (simp only: safe_def w_def Let_def)
qed

section \<open>Pruning on the sample store\<close>

lemma stale_fields:
  "mem_id stale_memory = 1" "importance stale_memory = 5" "status stale_memory = Active"
  "usefulnessScore stale_memory = 1.5" "accessedAt stale_memory = 0"
  "scope stale_memory = Global" "mem_type stale_memory = Lesson"
  "encoded stale_memory = ''e1''" "decodedCache stale_memory = Some ''old note''"
  by (simp_all add: stale_memory_def)

lemma vital_fields:
  "mem_id vital_memory = 2" "importance vital_memory = 8" "status vital_memory = Active"
  "usefulnessScore vital_memory = 1.5" "accessedAt vital_memory = 0"
  by (simp_all add: vital_memory_def stale_memory_def)

lemma recent_fields:
  "mem_id recent_memory = 3" "importance recent_memory = 5" "status recent_memory = Active"
  "usefulnessScore recent_memory = 1.5" "accessedAt recent_memory = 9936000000"
  by (simp_all add: recent_memory_def stale_memory_def)

lemma prune_db_fields:
  "memories prune_db = [stale_memory, vital_memory, recent_memory]"
  "memory_feedback prune_db = [stale_event]"
  by (simp_all add: prune_db_def empty_db_def)

lemma candidates_90:
  "pruneCandidates prune_db prune_now prune_input None = [stale_memory]"
  by (simp add: pruneCandidates_def getLowUsefulnessMemories_def prune_input_def prune_now_def
      prune_db_fields stale_fields vital_fields recent_fields Let_def)

lemma days_stale: "daysSinceAccess prune_now 0 = 120"
  by (simp add: daysSinceAccess_def prune_now_def)

lemma prune_input_fields:
  "dryRun_in prune_input = None" "permanent_in prune_input = None"
  by (simp_all add: prune_input_def)

lemma unsafe_stale: "\<not> unsafe prune_now stale_memory"
  by (simp add: unsafe_def days_stale stale_fields)

lemma prune_scenario_eval:
  "prune prune_db prune_now prune_input None
     = Inr (prune_db\<lparr>memories := [stale_memory\<lparr>status := Archived, parentId := None\<rparr>,
                                     vital_memory, recent_memory]\<rparr>,
            \<lparr>pr_success = True, pr_dryRun = False, memoriesPruned = 1, estimatedBytes = 110,
             prunedMemories =
               Some [\<lparr>pm_id = 1, pm_type = Lesson, pm_usefulnessScore = 1.5,
                      pm_daysSinceAccess = 120, pm_importance = 5, pm_preview = ''old note''\<rparr>],
             pr_warnings = None\<rparr>)"
proof -
  have sf: "safetyFilter prune_now [stale_memory] [] = ([stale_memory], [])"
    by (simp add: safetyFilter_eq unsafe_stale)
  have ex: "memoryExists prune_db (Suc 0)"
    by (simp add: memoryExists_def selectMemory_def prune_db_fields stale_fields)
  have upd: "updateMemoriesWhereId prune_db (Suc 0) (\<lambda>m. m\<lparr>status := Archived, parentId := None\<rparr>)
      = prune_db\<lparr>memories := [stale_memory\<lparr>status := Archived, parentId := None\<rparr>,
                                     vital_memory, recent_memory]\<rparr>"
    unfolding updateMemoriesWhereId_def
    by (simp add: prune_db_fields stale_fields vital_fields recent_fields)
  have loop: "pruneLoop prune_db False [stale_memory] 0
      = Inr (prune_db\<lparr>memories := [stale_memory\<lparr>status := Archived, parentId := None\<rparr>,
                                     vital_memory, recent_memory]\<rparr>, 1)"
    by (simp add: archive_result stale_fields upd ex)
  have det: "prunedDetail prune_now stale_memory
      = \<lparr>pm_id = 1, pm_type = Lesson, pm_usefulnessScore = 1.5,
                      pm_daysSinceAccess = 120, pm_importance = 5, pm_preview = ''old note''\<rparr>"
    by (simp add: prunedDetail_def contentOf_def stale_fields days_stale)
  have sz: "estimateMemorySize stale_memory = 110"
    by (simp add: estimateMemorySize_def stale_fields)
  show ?thesis
    by (simp add: prune_def candidates_90 prune_input_fields sf loop det sz
        del: pruneLoop.simps safetyFilter.simps)
qed

section \<open>Pruning: the safety invariants and the warnings\<close>

lemma distinct_rows_single:
  "distinct (map mem_id ms) \<Longrightarrow> m \<in> set ms \<Longrightarrow> filter (\<lambda>x. mem_id x = mem_id m) ms = [m]"
  by (induction ms) (auto simp: image_iff filter_empty_conv)

lemma distinct_same_id:
  "distinct (map mem_id ms) \<Longrightarrow> m \<in> set ms \<Longrightarrow> s \<in> set ms \<Longrightarrow> mem_id s = mem_id m \<Longrightarrow> s = m"
  by (simp add: distinct_map inj_on_def)

text \<open>
  Claim C2. Whatever \<open>minUsefulness\<close>, \<open>maxAge\<close>, \<open>permanent\<close> and \<open>dryRun\<close> are (and
  whatever project filter), a stored memory whose importance is at least 8, or whose last
  access is less than 7 days (604800000 ms) before the call, is not among the memories
  \<^verbatim>\<open>prune\<close> reports as pruned, and it is still stored afterwards with every column
  unchanged, except that \<^verbatim>\<open>parent_id\<close> is nulled by the schema when a permanent prune
  deletes its parent; without \<open>permanent\<close> the row is identical. \<^verbatim>\<open>prune\<close> itself
  never fails.
\<close>

theorem prune_never_selects_protected:
  assumes dist: "distinct (map mem_id (memories db))"
    and mem: "m \<in> set (memories db)"
    and prot: "importance m \<ge> 8 \<or> now - accessedAt m < 604800000"
  shows "\<exists>db' res. prune db now input ph = Inr (db', res)
           \<and> mem_id m \<notin> set (prunedIds res)
           \<and> (\<exists>m'. filter (\<lambda>x. mem_id x = mem_id m) (memories db') = [m']
                  \<and> clearParent m' = clearParent m
                  \<and> (\<not> isPermanent input \<longrightarrow> m' = m))"
proof -
  let ?safe = "filter (\<lambda>m. \<not> unsafe now m) (pruneCandidates db now input ph)"
  from prune_shape[of db now input ph]
  obtain db' res where p: "prune db now input ph = Inr (db', res)"
    and ids: "prunedIds res = map mem_id ?safe"
    and st: "db' = db \<or> \<not> isDryRun input
          \<and> (\<exists>n. pruneLoop db (isPermanent input) ?safe 0 = Inr (db', n))"
    by blast
  have un: "unsafe now m"
    using prot by (simp add: unsafe_def daysSinceAccess_lt_7)
  have notin: "mem_id m \<notin> mem_id ` set ?safe"
  proof
    assume "mem_id m \<in> mem_id ` set ?safe"
    then obtain s where s: "s \<in> set (pruneCandidates db now input ph)" "\<not> unsafe now s"
        "mem_id s = mem_id m"
      by auto
    then have "s \<in> set (memories db)" using set_pruneCandidates by blast
    then have "s = m" using distinct_same_id[OF dist mem] s(3) by blast
    with s(2) un show False by simp
  qed
  have row: "filter (\<lambda>x. mem_id x = mem_id m) (memories db) = [m]"
    by (rule distinct_rows_single[OF dist mem])
  have "\<exists>m'. filter (\<lambda>x. mem_id x = mem_id m) (memories db') = [m']
                  \<and> clearParent m' = clearParent m
                  \<and> (\<not> isPermanent input \<longrightarrow> m' = m)"
  proof (cases "db' = db")
    case True
    then show ?thesis using row by simp
  next
    case False
    with st obtain n where "pruneLoop db (isPermanent input) ?safe 0 = Inr (db', n)"
      by blast
    from pruneLoop_other_rows[OF this notin] row
    have a: "map clearParent (filter (\<lambda>x. mem_id x = mem_id m) (memories db')) = [clearParent m]"
      and b: "\<not> isPermanent input \<longrightarrow> filter (\<lambda>x. mem_id x = mem_id m) (memories db') = [m]"
      by simp_all
    from a obtain m' where "filter (\<lambda>x. mem_id x = mem_id m) (memories db') = [m']"
      "clearParent m' = clearParent m"
      by (auto simp: map_eq_Cons_conv)
    with b show ?thesis by auto
  qed
  with p ids notin show ?thesis by auto
qed

theorem prune_never_selects_protected_witness:
  "distinct (map mem_id (memories prune_db))
   \<and> vital_memory \<in> set (memories prune_db)
   \<and> 8 \<le> importance vital_memory
   \<and> (\<exists>db' res. prune prune_db prune_now prune_input None = Inr (db', res)
          \<and> 2 \<notin> set (prunedIds res)
          \<and> filter (\<lambda>x. mem_id x = 2) (memories db') = [vital_memory])"
proof -
  have d: "distinct (map mem_id (memories prune_db))"
    by (simp add: prune_db_fields stale_fields vital_fields recent_fields)
  have m: "vital_memory \<in> set (memories prune_db)"
    by (simp add: prune_db_fields)
  have i: "8 \<le> importance vital_memory"
    by (simp add: vital_fields)
  have p: "\<not> isPermanent prune_input"
    by (simp add: isPermanent_def prune_input_def)
  show ?thesis
    using prune_never_selects_protected[of prune_db vital_memory prune_now prune_input None]
      d m i p
    by (auto simp: vital_fields)
qed

text \<open>
  Claim C5 as stated fails on the specification's own scenario: with
  \<open>minUsefulness = 2.0\<close> and \<open>maxAge = 90\<close>, the active memory of score 1.5 and importance
  8 last read 120 days ago is left out, and the result carries no warning at all. The
  \<^verbatim>\<open>WHERE\<close> clause of \<^verbatim>\<open>getLowUsefulnessMemories\<close> (\<^verbatim>\<open>importance < 8\<close>) has already
  dropped it before the safety filter of \<^verbatim>\<open>prune\<close> could push a warning.
\<close>

theorem prune_high_importance_unwarned:
  "vital_memory \<in> set (memories prune_db)
   \<and> importance vital_memory = 8 \<and> status vital_memory = Active
   \<and> usefulnessScore vital_memory < 2
   \<and> daysSinceAccess prune_now (accessedAt vital_memory) = 120
   \<and> prune prune_db prune_now prune_input None
       = Inr (prune_db\<lparr>memories := [stale_memory\<lparr>status := Archived, parentId := None\<rparr>,
                                       vital_memory, recent_memory]\<rparr>,
              \<lparr>pr_success = True, pr_dryRun = False, memoriesPruned = 1, estimatedBytes = 110,
               prunedMemories =
                 Some [\<lparr>pm_id = 1, pm_type = Lesson, pm_usefulnessScore = 1.5,
                        pm_daysSinceAccess = 120, pm_importance = 5,
                        pm_preview = ''old note''\<rparr>],
               pr_warnings = None\<rparr>)"
  using prune_scenario_eval
  by (simp add: prune_db_fields vital_fields days_stale)

text \<open>
  Claim C5, amended. Every candidate that reaches the safety filter of \<^verbatim>\<open>prune\<close> has
  importance below 8 (the query excludes the others without a warning). A candidate the
  filter drops for having been read less than 7 days ago is named, with its id and the
  number of days, in the returned warnings; these are all the warnings there are, except
  for the single message returned when nothing at all is pruned and nothing was dropped.
\<close>

theorem prune_warns_filtered_candidates:
  "\<exists>db' res. prune db now input ph = Inr (db', res)
     \<and> (\<forall>m \<in> set (pruneCandidates db now input ph).
            importance m < 8
          \<and> (daysSinceAccess now (accessedAt m) < 7
               \<longrightarrow> recentAccessWarning now m \<in> set (warningsOf res)))
     \<and> warningsOf res
         = (let recent = filter (\<lambda>m. daysSinceAccess now (accessedAt m) < 7)
                           (pruneCandidates db now input ph)
            in if recent \<noteq> [] then map (recentAccessWarning now) recent
               else if prunedIds res = [] then [''No memories eligible for pruning.'']
               else [])"
proof -
  let ?c = "pruneCandidates db now input ph"
  have imp: "\<And>m. m \<in> set ?c \<Longrightarrow> importance m < 8"
    using set_pruneCandidates by blast
  have f1: "filter (unsafe now) ?c = filter (\<lambda>m. daysSinceAccess now (accessedAt m) < 7) ?c"
    by (rule filter_cong) (use imp in \<open>auto simp: unsafe_def dest: leD\<close>)
  have f2: "map (safetyWarning now) (filter (\<lambda>m. daysSinceAccess now (accessedAt m) < 7) ?c)
          = map (recentAccessWarning now) (filter (\<lambda>m. daysSinceAccess now (accessedAt m) < 7) ?c)"
    by (rule map_cong) (use imp in \<open>auto simp: safetyWarning_def dest: leD\<close>)
  from prune_shape[of db now input ph]
  obtain db' res where p: "prune db now input ph = Inr (db', res)"
    and ids: "prunedIds res = map mem_id (filter (\<lambda>m. \<not> unsafe now m) ?c)"
    and w: "warningsOf res
         = (let w = map (safetyWarning now) (filter (unsafe now) ?c)
            in if w \<noteq> [] then w
               else if filter (\<lambda>m. \<not> unsafe now m) ?c = []
                 then [''No memories eligible for pruning.''] else [])"
    by blast
  have w': "warningsOf res
         = (let recent = filter (\<lambda>m. daysSinceAccess now (accessedAt m) < 7) ?c
            in if recent \<noteq> [] then map (recentAccessWarning now) recent
               else if prunedIds res = [] then [''No memories eligible for pruning.'']
               else [])"
    unfolding w ids f1 f2 by (simp add: Let_def)
  have "\<And>m. m \<in> set ?c \<Longrightarrow> daysSinceAccess now (accessedAt m) < 7
          \<Longrightarrow> recentAccessWarning now m \<in> set (warningsOf res)"
    unfolding w' by (auto simp: Let_def filter_empty_conv)
  with p imp w' show ?thesis by blast
qed

theorem prune_warns_filtered_candidates_witness:
  "recent_memory \<in> set (pruneCandidates prune_db prune_now (prune_input\<lparr>maxAge := Some 3\<rparr>) None)
   \<and> daysSinceAccess prune_now (accessedAt recent_memory) = 5
   \<and> (\<exists>db' res.
          prune prune_db prune_now (prune_input\<lparr>maxAge := Some 3\<rparr>) None = Inr (db', res)
        \<and> ''Skipping recently accessed memory #3 (5 days ago)'' \<in> set (warningsOf res))"
proof -
  have c: "pruneCandidates prune_db prune_now (prune_input\<lparr>maxAge := Some 3\<rparr>) None
             = [stale_memory, recent_memory]"
    by (simp add: pruneCandidates_def getLowUsefulnessMemories_def prune_input_def prune_now_def
        prune_db_fields stale_fields vital_fields recent_fields Let_def)
  have d: "daysSinceAccess prune_now (accessedAt recent_memory) = 5"
    by (simp add: daysSinceAccess_def prune_now_def recent_fields)
  have w: "recentAccessWarning prune_now recent_memory
             = ''Skipping recently accessed memory #3 (5 days ago)''"
    unfolding recentAccessWarning_def d
    by (simp add: recent_fields string_of_int_def string_of_nat.simps digit_char_def)
  show ?thesis
    using prune_warns_filtered_candidates[of prune_db prune_now "prune_input\<lparr>maxAge := Some 3\<rparr>" None]
      d w
    by (auto simp: c)
qed

section \<open>Access-Pattern Learner: decay\<close>

lemma decay_edges:
  "memory_relationships (fst (decayRelationshipStrengths db f fl))
     = filter (\<lambda>r. \<not> strength r < fl)
         (map (\<lambda>r. if strength r > fl then r\<lparr>strength := strength r * f\<rparr> else r)
            (memory_relationships db))"
  by (simp add: decayRelationshipStrengths_def Let_def)

lemma decay_other_tables:
  "memories (fst (decayRelationshipStrengths db f fl)) = memories db"
  "memory_feedback (fst (decayRelationshipStrengths db f fl)) = memory_feedback db"
  "embeddings (fst (decayRelationshipStrengths db f fl)) = embeddings db"
  by (simp_all add: decayRelationshipStrengths_def Let_def)

lemma edge_db_rels: "memory_relationships edge_db = [pair_edge]"
  by (simp add: edge_db_def empty_db_def)

lemma pair_edge_strength: "strength pair_edge = 1 / 5"
  by (simp add: pair_edge_def)

lemma floor_edge_strength: "strength floor_edge = 1 / 10"
  by (simp add: floor_edge_def)

text \<open>
  Claim C7: the code departs from it. \<^verbatim>\<open>decayRelationshipStrengths\<close> is documented as
  reducing all relationship strengths so that unused patterns fade, and the claim has every
  edge multiplied by the factor and every edge below the floor deleted. The \<^verbatim>\<open>UPDATE\<close>
  is guarded by \<^verbatim>\<open>WHERE strength > ?\<close> and the \<^verbatim>\<open>DELETE\<close> by \<^verbatim>\<open>WHERE strength < ?\<close>, so an
  edge exactly at the floor is neither multiplied nor deleted. With the defaults (factor
  0.95, floor 0.1) the edge of strength 0.1 is returned unchanged, with no row counted as
  updated, where the claim has it at 0.095 and deleted. With factor 0.5 and floor 0.1, the
  edge of strength 0.2 stands at 0.1 after two passes, while one pass with factor 0.25
  deletes it. Both evaluations involve only comparisons and a halving, which are exact in
  doubles.
\<close>

theorem decay_freezes_edge_at_floor:
  "decayRelationshipStrengths floor_db (95 / 100) (1 / 10) = (floor_db, 0)
   \<and> memory_relationships
       (fst (decayRelationshipStrengths (fst (decayRelationshipStrengths edge_db (1 / 2) (1 / 10)))
          (1 / 2) (1 / 10)))
     = [pair_edge\<lparr>strength := 1 / 10\<rparr>]
   \<and> memory_relationships (fst (decayRelationshipStrengths edge_db (1 / 2 * (1 / 2)) (1 / 10))) = []"
proof (intro conjI)
  have rels: "memory_relationships floor_db = [floor_edge]"
    by (simp add: floor_db_def)
  show "decayRelationshipStrengths floor_db (95 / 100) (1 / 10) = (floor_db, 0)"
    unfolding decayRelationshipStrengths_def Let_def rels
    by (simp add: floor_edge_strength floor_db_def)
  show "memory_relationships
       (fst (decayRelationshipStrengths (fst (decayRelationshipStrengths edge_db (1 / 2) (1 / 10)))
          (1 / 2) (1 / 10)))
     = [pair_edge\<lparr>strength := 1 / 10\<rparr>]"
    by (simp add: decay_edges edge_db_rels pair_edge_strength)
  show "memory_relationships (fst (decayRelationshipStrengths edge_db (1 / 2 * (1 / 2)) (1 / 10))) = []"
    by (simp add: decay_edges edge_db_rels pair_edge_strength)
qed

section \<open>Access-Pattern Learner: co-access\<close>

lemma fold_max_ge: "s \<le> fold max xs (s::nat)"
  by (induction xs arbitrary: s) (auto intro: order_trans[OF max.cobounded2])

lemma fold_max_mem: "x \<in> set xs \<Longrightarrow> x \<le> fold max xs (s::nat)"
proof (induction xs arbitrary: s)
  case Nil
  then show ?case by simp
next
  case (Cons y ys)
  show ?case
  proof (cases "x = y")
    case True
    have "max y s \<le> fold max ys (max y s)" by (rule fold_max_ge)
    then show ?thesis using True by simp
  next
    case False
    with Cons show ?thesis by simp
  qed
qed

lemma autoincrement_fresh: "autoincrement s ks \<notin> set ks"
  using fold_max_mem[of "autoincrement s ks" ks s] by (auto simp: autoincrement_def)

lemma update_by_id_single:
  assumes "distinct (map k rs)" "e \<in> set rs"
  shows "map (\<lambda>r. if k r = k e then h r else r) rs = map (\<lambda>r. if r = e then h e else r) rs"
proof (rule map_cong[OF refl])
  fix r assume "r \<in> set rs"
  with assms have "k r = k e \<longleftrightarrow> r = e"
    by (auto simp: distinct_map inj_on_def)
  then show "(if k r = k e then h r else r) = (if r = e then h e else r)" by auto
qed

lemma replace_first_match:
  assumes "distinct rs" "find P rs = Some e" "P e'"
  shows "filter P (map (\<lambda>r. if r = e then e' else r) rs) = e' # tl (filter P rs)
         \<and> filter P rs = e # tl (filter P rs)"
  using assms
proof (induction rs)
  case Nil
  then show ?case by simp
next
  case (Cons x xs)
  show ?case
  proof (cases "P x")
    case True
    with Cons.prems have xe: "x = e" by simp
    with Cons.prems have "e \<notin> set xs" by simp
    then have "map (\<lambda>r. if r = e then e' else r) xs = xs"
      by (intro map_idI) auto
    with True xe Cons.prems(3) show ?thesis by simp
  next
    case False
    with Cons.prems have f: "find P xs = Some e" by simp
    then have "P e" by (auto simp: find_Some_iff)
    with False have "x \<noteq> e" by auto
    with False Cons.IH[OF _ f Cons.prems(3)] Cons.prems(1) show ?thesis by simp
  qed
qed

lemma replace_outside:
  assumes "\<not> Q e" "\<not> Q e'"
  shows "filter Q (map (\<lambda>r. if r = e then e' else r) rs) = filter Q rs"
  using assms by (induction rs) auto


lemma memoryExists_memories_cong:
  "memories db' = memories db \<Longrightarrow> memoryExists db' i = memoryExists db i"
  by (simp add: memoryExists_def selectMemory_def)

lemma coAccessPair_step:
  assumes d: "distinct (map rel_id (memory_relationships db))"
    and ex: "memoryExists db a" "memoryExists db b"
    and s: "s = (if a < b then a else b)" and t: "t = (if a < b then b else a)"
  shows "\<exists>db'. coAccessPair db now inc a b = Inr db'
      \<and> strengthened now inc s t (similarRows db s t) (similarRows db' s t)
      \<and> (\<forall>Q. (\<forall>r. sourceId r = s \<and> targetId r = t \<and> relationship r = Similar \<longrightarrow> \<not> Q r)
             \<longrightarrow> filter Q (memory_relationships db') = filter Q (memory_relationships db))
      \<and> distinct (map rel_id (memory_relationships db'))
      \<and> memories db' = memories db \<and> memory_feedback db' = memory_feedback db
      \<and> embeddings db' = embeddings db"
proof -
  let ?P = "\<lambda>r. sourceId r = s \<and> targetId r = t \<and> relationship r = Similar"
  let ?rs = "memory_relationships db"
  have exs: "memoryExists db s" "memoryExists db t"
    using ex s t by auto
  show ?thesis
  proof (cases "selectSimilar db s t")
    case None
    then have f: "find ?P ?rs = None" by (simp add: selectSimilar_def)
    then have none: "filter ?P ?rs = []"
      by (auto simp: find_None_iff filter_empty_conv)
    define i where "i = autoincrement (memory_relationships_seq db) (map rel_id ?rs)"
    define row where "row = \<lparr>rel_id = i, sourceId = s, targetId = t, relationship = Similar,
                    strength = inc, rel_createdAt = now\<rparr>"
    define db' where "db' = db\<lparr>memory_relationships := ?rs @ [row],
                    memory_relationships_seq := i\<rparr>"
    have cr: "createRelationship db now s t Similar inc = Inr (db', row)"
      using exs by (simp add: createRelationship_def Let_def db'_def row_def i_def)
    have run: "coAccessPair db now inc a b = Inr db'"
      using None cr s t by (simp add: coAccessPair_def Let_def)
    have rows: "similarRows db' s t = [row]"
      using none by (simp add: similarRows_def db'_def row_def)
    have A: "strengthened now inc s t (similarRows db s t) (similarRows db' s t)"
      unfolding rows using none by (auto simp: strengthened_def similarRows_def row_def)
    have B: "\<forall>Q. (\<forall>r. ?P r \<longrightarrow> \<not> Q r)
             \<longrightarrow> filter Q (memory_relationships db') = filter Q ?rs"
      by (simp add: db'_def row_def)
    have "i \<notin> set (map rel_id ?rs)"
      unfolding i_def by (rule autoincrement_fresh)
    then have C: "distinct (map rel_id (memory_relationships db'))"
      using d by (simp add: db'_def row_def)
    have D: "memories db' = memories db" "memory_feedback db' = memory_feedback db"
      "embeddings db' = embeddings db"
      by (simp_all add: db'_def)
    show ?thesis
      by (intro exI[of _ db'] conjI) (rule run A B C D)+
  next
    case (Some e)
    then have f: "find ?P ?rs = Some e" by (simp add: selectSimilar_def)
    then have Pe: "?P e" and mem: "e \<in> set ?rs"
      by (auto simp: find_Some_iff)
    define e' where "e' = e\<lparr>strength := min 10 (strength e + inc)\<rparr>"
    have Pe': "?P e'" using Pe by (simp add: e'_def)
    define db' where "db' = db\<lparr>memory_relationships :=
        map (\<lambda>r. if rel_id r = rel_id e then r\<lparr>strength := min 10 (strength e + inc)\<rparr> else r) ?rs\<rparr>"
    have run: "coAccessPair db now inc a b = Inr db'"
      using Some s t by (simp add: coAccessPair_def Let_def db'_def)
    have rels: "memory_relationships db' = map (\<lambda>r. if r = e then e' else r) ?rs"
      using update_by_id_single[OF d mem, of "\<lambda>r. r\<lparr>strength := min 10 (strength e + inc)\<rparr>"]
      by (simp add: db'_def e'_def)
    have dr: "distinct ?rs" using d by (simp add: distinct_map)
    from replace_first_match[OF dr f Pe']
    obtain es where r1: "filter ?P (memory_relationships db') = e' # es"
      and r2: "filter ?P ?rs = e # es"
      unfolding rels by blast
    have A: "strengthened now inc s t (similarRows db s t) (similarRows db' s t)"
      unfolding similarRows_def r1 r2 by (simp add: strengthened_def e'_def)
    have B: "\<forall>Q. (\<forall>r. ?P r \<longrightarrow> \<not> Q r)
             \<longrightarrow> filter Q (memory_relationships db') = filter Q ?rs"
      unfolding rels using Pe Pe' by (auto intro: replace_outside)
    have "map rel_id (memory_relationships db') = map rel_id ?rs"
      by (simp add: db'_def comp_def cong: if_cong)
    then have C: "distinct (map rel_id (memory_relationships db'))"
      using d by simp
    have D: "memories db' = memories db" "memory_feedback db' = memory_feedback db"
      "embeddings db' = embeddings db"
      by (simp_all add: db'_def)
    show ?thesis
      by (intro exI[of _ db'] conjI) (rule run A B C D)+
  qed
qed

lemma coAccessEffectI:
  assumes "\<And>s t. (s, t) \<in> K \<Longrightarrow>
             strengthened now inc s t (similarRows db s t) (similarRows db' s t)"
    and "\<And>Q. (\<And>r. relationship r = Similar \<Longrightarrow> (sourceId r, targetId r) \<in> K \<Longrightarrow> \<not> Q r)
            \<Longrightarrow> filter Q (memory_relationships db') = filter Q (memory_relationships db)"
    and "distinct (map rel_id (memory_relationships db'))"
    and "memories db' = memories db" "memory_feedback db' = memory_feedback db"
      "embeddings db' = embeddings db"
  shows "coAccessEffect now inc K db db'"
  unfolding coAccessEffect_def
proof (intro conjI allI impI)
  fix s t assume "(s, t) \<in> K"
  then show "strengthened now inc s t (similarRows db s t) (similarRows db' s t)"
    by (rule assms(1))
next
  fix Q :: "MemoryRelationship \<Rightarrow> bool" assume q: "\<forall>r. relationship r = Similar \<and> (sourceId r, targetId r) \<in> K \<longrightarrow> \<not> Q r"
  show "filter Q (memory_relationships db') = filter Q (memory_relationships db)"
  proof (rule assms(2))
    fix r :: MemoryRelationship assume "relationship r = Similar" "(sourceId r, targetId r) \<in> K"
    with q show "\<not> Q r" by simp
  qed
qed (rule assms)+

lemma coAccessEffectD:
  assumes "coAccessEffect now inc K db db'"
  shows "\<forall>s t. (s, t) \<in> K \<longrightarrow>
           strengthened now inc s t (similarRows db s t) (similarRows db' s t)"
    and "\<forall>Q. (\<forall>r. relationship r = Similar \<and> (sourceId r, targetId r) \<in> K \<longrightarrow> \<not> Q r)
          \<longrightarrow> filter Q (memory_relationships db') = filter Q (memory_relationships db)"
    and "distinct (map rel_id (memory_relationships db'))"
    and "memories db' = memories db" and "memory_feedback db' = memory_feedback db"
    and "embeddings db' = embeddings db"
proof -
  note d = assms[unfolded coAccessEffect_def]
  show "\<forall>s t. (s, t) \<in> K \<longrightarrow>
           strengthened now inc s t (similarRows db s t) (similarRows db' s t)"
    by (rule d[THEN conjunct1])
  show "\<forall>Q. (\<forall>r. relationship r = Similar \<and> (sourceId r, targetId r) \<in> K \<longrightarrow> \<not> Q r)
          \<longrightarrow> filter Q (memory_relationships db') = filter Q (memory_relationships db)"
    by (rule d[THEN conjunct2, THEN conjunct1])
  show "distinct (map rel_id (memory_relationships db'))"
    by (rule d[THEN conjunct2, THEN conjunct2, THEN conjunct1])
  show "memories db' = memories db"
    by (rule d[THEN conjunct2, THEN conjunct2, THEN conjunct2, THEN conjunct1])
  show "memory_feedback db' = memory_feedback db"
    by (rule d[THEN conjunct2, THEN conjunct2, THEN conjunct2, THEN conjunct2, THEN conjunct1])
  show "embeddings db' = embeddings db"
    by (rule d[THEN conjunct2, THEN conjunct2, THEN conjunct2, THEN conjunct2, THEN conjunct2])
qed

lemma coAccessEffect_rows:
  assumes "coAccessEffect now inc K db db'" "(s, t) \<in> K"
  shows "strengthened now inc s t (similarRows db s t) (similarRows db' s t)"
  using coAccessEffectD(1)[OF assms(1), THEN spec, THEN spec, THEN mp, OF assms(2)] .

lemma coAccessEffect_frame:
  assumes e: "coAccessEffect now inc K db db'"
    and q: "\<And>r. relationship r = Similar \<Longrightarrow> (sourceId r, targetId r) \<in> K \<Longrightarrow> \<not> Q r"
  shows "filter Q (memory_relationships db') = filter Q (memory_relationships db)"
proof -
  have "\<forall>r. relationship r = Similar \<and> (sourceId r, targetId r) \<in> K \<longrightarrow> \<not> Q r"
    using q by blast
  with coAccessEffectD(2)[OF e, THEN spec, of Q] show ?thesis by (rule mp)
qed

lemmas coAccessEffect_tables = coAccessEffectD(3,4,5,6)

lemma coAccessEffect_similarRows:
  assumes "coAccessEffect now inc K db db'" "(s, t) \<notin> K"
  shows "similarRows db' s t = similarRows db s t"
  unfolding similarRows_def
proof (rule coAccessEffect_frame[OF assms(1)])
  fix r :: MemoryRelationship assume "relationship r = Similar" "(sourceId r, targetId r) \<in> K"
  with assms(2) show "\<not> (sourceId r = s \<and> targetId r = t \<and> relationship r = Similar)"
    by auto
qed

lemma coAccessEffect_refl:
  "distinct (map rel_id (memory_relationships db)) \<Longrightarrow> coAccessEffect now inc {} db db"
  by (rule coAccessEffectI) simp_all

lemma coAccessEffect_trans:
  assumes e1: "coAccessEffect now inc K1 db db1" and e2: "coAccessEffect now inc K2 db1 db2"
    and disj: "K1 \<inter> K2 = {}"
  shows "coAccessEffect now inc (K1 \<union> K2) db db2"
proof (rule coAccessEffectI)
  fix s t assume k: "(s, t) \<in> K1 \<union> K2"
  show "strengthened now inc s t (similarRows db s t) (similarRows db2 s t)"
  proof (cases "(s, t) \<in> K1")
    case True
    with disj have "(s, t) \<notin> K2" by auto
    from coAccessEffect_similarRows[OF e2 this] coAccessEffect_rows[OF e1 True]
    show ?thesis by simp
  next
    case False
    with k have k2: "(s, t) \<in> K2" by simp
    from coAccessEffect_similarRows[OF e1 False] coAccessEffect_rows[OF e2 k2]
    show ?thesis by simp
  qed
next
  fix Q :: "MemoryRelationship \<Rightarrow> bool" assume q: "\<And>r. relationship r = Similar \<Longrightarrow> (sourceId r, targetId r) \<in> K1 \<union> K2 \<Longrightarrow> \<not> Q r"
  have "filter Q (memory_relationships db2) = filter Q (memory_relationships db1)"
    by (rule coAccessEffect_frame[OF e2]) (use q in simp)
  also have "\<dots> = filter Q (memory_relationships db)"
    by (rule coAccessEffect_frame[OF e1]) (use q in simp)
  finally show "filter Q (memory_relationships db2) = filter Q (memory_relationships db)" .
next
  show "distinct (map rel_id (memory_relationships db2))"
    by (rule coAccessEffect_tables(1)[OF e2])
  show "memories db2 = memories db"
    using coAccessEffect_tables(2)[OF e1] coAccessEffect_tables(2)[OF e2] by simp
  show "memory_feedback db2 = memory_feedback db"
    using coAccessEffect_tables(3)[OF e1] coAccessEffect_tables(3)[OF e2] by simp
  show "embeddings db2 = embeddings db"
    using coAccessEffect_tables(4)[OF e1] coAccessEffect_tables(4)[OF e2] by simp
qed

lemma coAccessEffect_exists:
  "coAccessEffect now inc K db db' \<Longrightarrow> memoryExists db' i = memoryExists db i"
  by (rule memoryExists_memories_cong[OF coAccessEffect_tables(2)])

lemma coAccessEffect_single:
  assumes "distinct (map rel_id (memory_relationships db))" "memoryExists db a" "memoryExists db b"
  shows "\<exists>db'. coAccessPair db now inc a b = Inr db'
           \<and> coAccessEffect now inc {(min a b, max a b)} db db'"
proof -
  have s: "min a b = (if a < b then a else b)" and t: "max a b = (if a < b then b else a)"
    by auto
  from coAccessPair_step[OF assms s t, of now inc]
  obtain db' where run: "coAccessPair db now inc a b = Inr db'"
    and A: "strengthened now inc (min a b) (max a b) (similarRows db (min a b) (max a b))
              (similarRows db' (min a b) (max a b))"
    and B: "\<forall>Q. (\<forall>r. sourceId r = min a b \<and> targetId r = max a b \<and> relationship r = Similar
                  \<longrightarrow> \<not> Q r)
             \<longrightarrow> filter Q (memory_relationships db') = filter Q (memory_relationships db)"
    and C: "distinct (map rel_id (memory_relationships db'))"
    and D: "memories db' = memories db" "memory_feedback db' = memory_feedback db"
      "embeddings db' = embeddings db"
    by (elim exE conjE)
  have "coAccessEffect now inc {(min a b, max a b)} db db'"
  proof (rule coAccessEffectI)
    fix s t assume "(s, t) \<in> {(min a b, max a b)}"
    with A show "strengthened now inc s t (similarRows db s t) (similarRows db' s t)" by simp
  next
    fix Q :: "MemoryRelationship \<Rightarrow> bool" assume q: "\<And>r. relationship r = Similar \<Longrightarrow> (sourceId r, targetId r) \<in> {(min a b, max a b)}
                       \<Longrightarrow> \<not> Q r"
    have "\<forall>r. sourceId r = min a b \<and> targetId r = max a b \<and> relationship r = Similar \<longrightarrow> \<not> Q r"
      using q by simp
    with B[THEN spec, of Q] show "filter Q (memory_relationships db') = filter Q (memory_relationships db)"
      by (rule mp)
  qed (rule C D)+
  with run show ?thesis by blast
qed

lemma pair_keys_distinct:
  fixes a b b' :: nat
  assumes "b \<noteq> b'"
  shows "(min a b, max a b) \<noteq> (min a b', max a b')"
  using assms by (auto simp: min_def max_def split: if_splits)

lemma coAccessInner_effect:
  assumes "distinct (map rel_id (memory_relationships db))" "memoryExists db a"
    "\<forall>b \<in> set bs. memoryExists db b" "distinct bs"
  shows "\<exists>db'. coAccessInner db now inc a bs = Inr db'
           \<and> coAccessEffect now inc ((\<lambda>b. (min a b, max a b)) ` set bs) db db'"
  using assms
proof (induction bs arbitrary: db)
  case Nil
  then show ?case by (simp add: coAccessEffect_refl)
next
  case (Cons b bs)
  have exb: "memoryExists db b" using Cons.prems(3) by simp
  from coAccessEffect_single[OF Cons.prems(1,2) exb, of now inc]
  obtain db1 where r1: "coAccessPair db now inc a b = Inr db1"
    and e1: "coAccessEffect now inc {(min a b, max a b)} db db1"
    by (elim exE conjE)
  have d1: "distinct (map rel_id (memory_relationships db1))"
    by (rule coAccessEffect_tables(1)[OF e1])
  have ex1: "memoryExists db1 a" "\<forall>b \<in> set bs. memoryExists db1 b"
    using Cons.prems(2,3) by (simp_all add: coAccessEffect_exists[OF e1])
  have db: "distinct bs" using Cons.prems(4) by simp
  from Cons.IH[OF d1 ex1 db]
  obtain db' where r2: "coAccessInner db1 now inc a bs = Inr db'"
    and e2: "coAccessEffect now inc ((\<lambda>b. (min a b, max a b)) ` set bs) db1 db'"
    by (elim exE conjE)
  have disj: "{(min a b, max a b)} \<inter> (\<lambda>b. (min a b, max a b)) ` set bs = {}"
  proof -
    have "(min a b, max a b) \<noteq> (min a b', max a b')" if "b' \<in> set bs" for b'
    proof (rule pair_keys_distinct)
      from that Cons.prems(4) show "b \<noteq> b'" by auto
    qed
    then show ?thesis by blast
  qed
  have un: "{(min a b, max a b)} \<union> (\<lambda>b. (min a b, max a b)) ` set bs
              = (\<lambda>b. (min a b, max a b)) ` set (b # bs)"
    by simp
  have "coAccessEffect now inc ((\<lambda>b. (min a b, max a b)) ` set (b # bs)) db db'"
    using coAccessEffect_trans[OF e1 e2 disj] unfolding un .
  moreover have "coAccessInner db now inc a (b # bs) = Inr db'"
    using r1 r2 by simp
  ultimately show ?case by blast
qed

lemma inner_keys:
  fixes a :: nat
  assumes "a \<notin> set rest"
  shows "(\<lambda>b. (min a b, max a b)) ` set rest
           = {(s, t). (s = a \<and> t \<in> set rest \<or> t = a \<and> s \<in> set rest) \<and> s < t}"
proof (intro set_eqI iffI)
  fix p assume "p \<in> (\<lambda>b. (min a b, max a b)) ` set rest"
  then obtain b where b: "b \<in> set rest" "p = (min a b, max a b)" by auto
  with assms have "a \<noteq> b" by auto
  then consider "a < b" | "b < a" by (meson nat_neq_iff)
  then show "p \<in> {(s, t). (s = a \<and> t \<in> set rest \<or> t = a \<and> s \<in> set rest) \<and> s < t}"
    by cases (use b in \<open>simp_all add: min_def max_def\<close>)
next
  fix p assume "p \<in> {(s, t). (s = a \<and> t \<in> set rest \<or> t = a \<and> s \<in> set rest) \<and> s < t}"
  then obtain s t where p: "p = (s, t)" "s < t"
    and c: "s = a \<and> t \<in> set rest \<or> t = a \<and> s \<in> set rest"
    by auto
  from c show "p \<in> (\<lambda>b. (min a b, max a b)) ` set rest"
  proof
    assume "s = a \<and> t \<in> set rest"
    with p have "t \<in> set rest" "p = (min a t, max a t)" by (simp_all add: min_def max_def)
    then show ?thesis by (rule rev_image_eqI)
  next
    assume "t = a \<and> s \<in> set rest"
    with p have "s \<in> set rest" "p = (min a s, max a s)" by (simp_all add: min_def max_def)
    then show ?thesis by (rule rev_image_eqI)
  qed
qed

lemma coAccessOuter_effect:
  assumes "distinct (map rel_id (memory_relationships db))"
    "\<forall>i \<in> set ids. memoryExists db i" "distinct ids"
  shows "\<exists>db'. coAccessOuter db now inc ids = Inr db'
           \<and> coAccessEffect now inc {(s, t). s \<in> set ids \<and> t \<in> set ids \<and> s < t} db db'"
  using assms
proof (induction ids arbitrary: db)
  case Nil
  then show ?case by (simp add: coAccessEffect_refl)
next
  case (Cons a rest)
  have an: "a \<notin> set rest" and dr: "distinct rest" using Cons.prems(3) by simp_all
  have exa: "memoryExists db a" and exr: "\<forall>b \<in> set rest. memoryExists db b"
    using Cons.prems(2) by simp_all
  from coAccessInner_effect[OF Cons.prems(1) exa exr dr, of now inc]
  obtain db1 where r1: "coAccessInner db now inc a rest = Inr db1"
    and e1: "coAccessEffect now inc ((\<lambda>b. (min a b, max a b)) ` set rest) db db1"
    by (elim exE conjE)
  have d1: "distinct (map rel_id (memory_relationships db1))"
    by (rule coAccessEffect_tables(1)[OF e1])
  have ex1: "\<forall>i \<in> set rest. memoryExists db1 i"
    using exr by (simp add: coAccessEffect_exists[OF e1])
  from Cons.IH[OF d1 ex1 dr]
  obtain db' where r2: "coAccessOuter db1 now inc rest = Inr db'"
    and e2: "coAccessEffect now inc {(s, t). s \<in> set rest \<and> t \<in> set rest \<and> s < t} db1 db'"
    by (elim exE conjE)
  let ?K1 = "{(s, t). (s = a \<and> t \<in> set rest \<or> t = a \<and> s \<in> set rest) \<and> s < t}"
  let ?K2 = "{(s, t). s \<in> set rest \<and> t \<in> set rest \<and> s < t}"
  have e1': "coAccessEffect now inc ?K1 db db1"
    using e1 unfolding inner_keys[OF an] .
  have disj: "?K1 \<inter> ?K2 = {}"
    using an by auto
  have un: "?K1 \<union> ?K2 = {(s, t). s \<in> set (a # rest) \<and> t \<in> set (a # rest) \<and> s < t}"
    by auto
  have "coAccessEffect now inc {(s, t). s \<in> set (a # rest) \<and> t \<in> set (a # rest) \<and> s < t} db db'"
    using coAccessEffect_trans[OF e1' e2 disj] unfolding un .
  moreover have "coAccessOuter db now inc (a # rest) = Inr db'"
    using r1 r2 by simp
  ultimately show ?case by blast
qed

text \<open>
  Claim C9. For a list of distinct ids of stored memories (and a relationships table with
  unique row ids), \<^verbatim>\<open>recordCoAccess\<close> succeeds, and for every two ids \<open>s < t\<close> of the list
  the \<^verbatim>\<open>similar\<close> rows stored under \<open>(s, t)\<close>, the smaller id as source, are strengthened
  once: where there was none, one row is created at the increment; otherwise the first row
  has the increment added, capped at 10, and further rows of the pair stay. Every other
  row of the table is unchanged, so the pairs of the list are exactly the edges touched,
  and no other table is written. For the list 1, 2, 3 and increment 0.1 on a store
  without edges these are the three edges (1,2), (1,3), (2,3), each at 0.1.
\<close>

theorem recordCoAccess_strengthens_each_pair:
  assumes "distinct ids" "\<forall>i \<in> set ids. memoryExists db i"
    "distinct (map rel_id (memory_relationships db))"
  shows "\<exists>db'. recordCoAccess db now ids inc = Inr db'
     \<and> (\<forall>s t. s \<in> set ids \<and> t \<in> set ids \<and> s < t \<longrightarrow>
            strengthened now inc s t (similarRows db s t) (similarRows db' s t))
     \<and> filter (\<lambda>r. \<not> coAccessed (set ids) r) (memory_relationships db')
         = filter (\<lambda>r. \<not> coAccessed (set ids) r) (memory_relationships db)
     \<and> memories db' = memories db \<and> memory_feedback db' = memory_feedback db
     \<and> embeddings db' = embeddings db"
proof -
  let ?K = "{(s, t). s \<in> set ids \<and> t \<in> set ids \<and> s < t}"
  have "\<exists>db'. recordCoAccess db now ids inc = Inr db' \<and> coAccessEffect now inc ?K db db'"
  proof (cases "length ids < 2")
    case False
    with coAccessOuter_effect[OF assms(3,2,1), of now inc] show ?thesis
      by (simp add: recordCoAccess_def)
  next
    case True
    then have "ids = [] \<or> (\<exists>a. ids = [a])"
      by (cases ids) (auto simp: length_Suc_conv)
    then have k: "?K = {}" by auto
    have "coAccessEffect now inc ?K db db"
      unfolding k by (rule coAccessEffect_refl[OF assms(3)])
    moreover have "recordCoAccess db now ids inc = Inr db"
      using True by (simp add: recordCoAccess_def)
    ultimately show ?thesis by blast
  qed
  then obtain db' where run: "recordCoAccess db now ids inc = Inr db'"
    and e: "coAccessEffect now inc ?K db db'"
    by (elim exE conjE)
  have A: "\<forall>s t. s \<in> set ids \<and> t \<in> set ids \<and> s < t \<longrightarrow>
            strengthened now inc s t (similarRows db s t) (similarRows db' s t)"
    using coAccessEffect_rows[OF e] by simp
  have B: "filter (\<lambda>r. \<not> coAccessed (set ids) r) (memory_relationships db')
         = filter (\<lambda>r. \<not> coAccessed (set ids) r) (memory_relationships db)"
  proof (rule coAccessEffect_frame[OF e])
    fix r :: MemoryRelationship
    assume "relationship r = Similar" "(sourceId r, targetId r) \<in> ?K"
    then show "\<not> \<not> coAccessed (set ids) r" by (simp add: coAccessed_def)
  qed
  show ?thesis
    by (intro exI[of _ db'] conjI) (rule run A B coAccessEffect_tables(2,3,4)[OF e])+
qed

lemma prune_db_exists:
  "memoryExists prune_db 1" "memoryExists prune_db 2" "memoryExists prune_db 3"
  by (simp_all add: memoryExists_def selectMemory_def prune_db_fields stale_fields vital_fields
      recent_fields)

lemma prune_db_rels: "memory_relationships prune_db = []"
  by (simp add: prune_db_def empty_db_def)

theorem recordCoAccess_strengthens_each_pair_witness:
  "distinct [1, 2, 3 :: nat]
   \<and> memoryExists prune_db 1 \<and> memoryExists prune_db 2 \<and> memoryExists prune_db 3
   \<and> distinct (map rel_id (memory_relationships prune_db))
   \<and> (\<exists>db'. recordCoAccess prune_db 0 [1, 2, 3] (1 / 10) = Inr db'
          \<and> (\<exists>i. similarRows db' 1 2
                   = [\<lparr>rel_id = i, sourceId = 1, targetId = 2, relationship = Similar,
                       strength = 1 / 10, rel_createdAt = 0\<rparr>])
          \<and> (\<exists>i. similarRows db' 1 3
                   = [\<lparr>rel_id = i, sourceId = 1, targetId = 3, relationship = Similar,
                       strength = 1 / 10, rel_createdAt = 0\<rparr>])
          \<and> (\<exists>i. similarRows db' 2 3
                   = [\<lparr>rel_id = i, sourceId = 2, targetId = 3, relationship = Similar,
                       strength = 1 / 10, rel_createdAt = 0\<rparr>])
          \<and> filter (\<lambda>r. \<not> coAccessed {1, 2, 3} r) (memory_relationships db') = [])"
proof -
  have ex: "\<forall>i \<in> set [1, 2, 3]. memoryExists prune_db i"
    using prune_db_exists by simp
  have d: "distinct (map rel_id (memory_relationships prune_db))"
    by (simp add: prune_db_rels)
  have none: "\<And>s t. similarRows prune_db s t = []"
    by (simp add: similarRows_def prune_db_rels)
  from recordCoAccess_strengthens_each_pair[of "[1, 2, 3]" prune_db 0 "1 / 10", OF _ ex d]
  obtain db' where run: "recordCoAccess prune_db 0 [1, 2, 3] (1 / 10) = Inr db'"
    and A: "\<forall>s t. s \<in> set [1, 2, 3] \<and> t \<in> set [1, 2, 3] \<and> s < t \<longrightarrow>
            strengthened 0 (1 / 10) s t (similarRows prune_db s t) (similarRows db' s t)"
    and B: "filter (\<lambda>r. \<not> coAccessed (set [1, 2, 3]) r) (memory_relationships db')
         = filter (\<lambda>r. \<not> coAccessed (set [1, 2, 3]) r) (memory_relationships prune_db)"
    by auto
  have s12: "strengthened 0 (1 / 10) 1 2 [] (similarRows db' 1 2)"
    using A[THEN spec, of 1, THEN spec, of 2] by (simp add: none)
  have s13: "strengthened 0 (1 / 10) 1 3 [] (similarRows db' 1 3)"
    using A[THEN spec, of 1, THEN spec, of 3] by (simp add: none)
  have s23: "strengthened 0 (1 / 10) 2 3 [] (similarRows db' 2 3)"
    using A[THEN spec, of 2, THEN spec, of 3] by (simp add: none)
  have B': "filter (\<lambda>r. \<not> coAccessed {1, 2, 3} r) (memory_relationships db') = []"
    using B by (simp add: prune_db_rels)
  show ?thesis
    using run s12 s13 s23 B' prune_db_exists d
    by (simp add: strengthened_def)
qed




















section \<open>Consolidation\<close>

lemma append_update_last:
  "k new \<notin> k ` set ms \<Longrightarrow>
   map (\<lambda>m. if k m = k new then f m else m) (ms @ [new]) = ms @ [f new]"
  by (induction ms) auto

lemma update_in_turn:
  assumes "\<And>m. k (g m) = k m" "\<And>m. g (g m) = g m"
  shows "map (\<lambda>m. if k m \<in> B then g m else m) (map (\<lambda>m. if k m = a then g m else m) xs)
           = map (\<lambda>m. if k m \<in> insert a B then g m else m) xs"
  using assms by (induction xs) auto

lemma count_marked:
  assumes dx: "distinct (map k xs)" and dk: "distinct ks" and sub: "set ks \<subseteq> k ` set xs"
    and yes: "\<And>x. x \<in> set xs \<Longrightarrow> k x \<in> set ks \<Longrightarrow> P (g x)"
    and no: "\<And>x. x \<in> set xs \<Longrightarrow> k x \<notin> set ks \<Longrightarrow> \<not> P x"
  shows "length (filter P (map (\<lambda>x. if k x \<in> set ks then g x else x) xs)) = length ks"
proof -
  have "filter (P \<circ> (\<lambda>x. if k x \<in> set ks then g x else x)) xs = filter (\<lambda>x. k x \<in> set ks) xs"
    by (rule filter_cong[OF refl]) (use yes no in auto)
  then have "length (filter P (map (\<lambda>x. if k x \<in> set ks then g x else x) xs))
        = length (filter (\<lambda>x. k x \<in> set ks) xs)"
    by (simp add: filter_map)
  also have "\<dots> = length (filter (\<lambda>i. i \<in> set ks) (map k xs))"
    by (simp add: filter_map comp_def)
  also have "\<dots> = card ({i. i \<in> set ks} \<inter> set (map k xs))"
    using dx by (rule distinct_length_filter)
  also have "{i. i \<in> set ks} \<inter> set (map k xs) = set ks"
    using sub by auto
  also have "card (set ks) = length ks"
    using dk by (rule distinct_card)
  finally show ?thesis .
qed

lemma createMemory_ok:
  assumes "cm_importance inp = Some imp" "1 \<le> imp" "imp \<le> 9"
  shows "\<exists>new. createMemory db now inp
             = Inr (db\<lparr>memories := memories db @ [new], memories_seq := mem_id new\<rparr>, new)
          \<and> mem_id new = autoincrement (memories_seq db) (map mem_id (memories db))
          \<and> status new = Active \<and> parentId new = None \<and> level new = 1
          \<and> mem_type new = cm_type inp \<and> scope new = cm_scope inp \<and> importance new = imp"
  using assms by (simp add: createMemory_def Let_def)

lemma updateLevel_ok:
  "1 \<le> l \<Longrightarrow> l \<le> 3 \<Longrightarrow>
   updateLevel db i l = Inr (updateMemoriesWhereId db i (\<lambda>m. m\<lparr>level := l\<rparr>))"
  by (simp add: updateLevel_def)

lemma embedded_memories:
  "memories (fst (case embedMemory ge db i txt of
                    Inl err \<Rightarrow> (db, w1 err) | Inr db3 \<Rightarrow> (db3, w2)))
     = memories db"
  by (simp add: embedMemory_def storeEmbedding_def split: sum.splits)

lemma linkSources_memories:
  assumes "\<forall>s \<in> set srcs. memoryExists db (mem_id s)" "memoryExists db nid"
  shows "\<exists>db'. linkSources db now nid avg srcs = Inr db'
           \<and> memories db'
               = map (\<lambda>m. if mem_id m \<in> mem_id ` set srcs then consolidatedInto nid m else m)
                   (memories db)"
  using assms
proof (induction srcs arbitrary: db)
  case Nil
  show ?case by simp
next
  case (Cons s srcs)
  define g where "g = consolidatedInto nid"
  have gid: "\<And>m. mem_id (g m) = mem_id m" and gg: "\<And>m. g (g m) = g m"
    by (simp_all add: g_def consolidatedInto_def)
  define db1 where "db1 = updateMemoriesWhereId db (mem_id s) g"
  have g_eq: "g = (\<lambda>m. m\<lparr>status := Consolidated, parentId := Some nid\<rparr>)"
    by (rule ext) (simp add: g_def consolidatedInto_def)
  have u: "updateMemoryStatus db (mem_id s) Consolidated (Some nid) = Inr (db1, True)"
    using Cons.prems by (simp add: updateMemoryStatus_def db1_def g_eq)
  have ex1: "\<And>j. memoryExists db1 j = memoryExists db j"
    unfolding db1_def by (rule memoryExists_update) (rule gid)
  define row where "row = \<lparr>rel_id = autoincrement (memory_relationships_seq db1)
                                     (map rel_id (memory_relationships db1)),
                            sourceId = mem_id s, targetId = nid, relationship = DerivedFrom,
                            strength = avg, rel_createdAt = now\<rparr>"
  define db2 where "db2 = db1\<lparr>memory_relationships := memory_relationships db1 @ [row],
                              memory_relationships_seq := rel_id row\<rparr>"
  have c: "createRelationship db1 now (mem_id s) nid DerivedFrom avg = Inr (db2, row)"
    using Cons.prems by (simp add: createRelationship_def Let_def ex1 db2_def row_def)
  have m2: "memories db2 = memories db1" by (simp add: db2_def)
  have ex2: "\<And>j. memoryExists db2 j = memoryExists db j"
    using memoryExists_memories_cong[OF m2] ex1 by simp
  have "\<forall>s' \<in> set srcs. memoryExists db2 (mem_id s')" "memoryExists db2 nid"
    using Cons.prems by (simp_all add: ex2)
  from Cons.IH[OF this] obtain db' where
    l: "linkSources db2 now nid avg srcs = Inr db'" and
    m: "memories db' = map (\<lambda>m. if mem_id m \<in> mem_id ` set srcs then g m else m) (memories db2)"
    by (auto simp: g_def)
  have "memories db2 = map (\<lambda>m. if mem_id m = mem_id s then g m else m) (memories db)"
    by (simp add: m2 db1_def updateMemoriesWhereId_def)
  with m have "memories db'
      = map (\<lambda>m. if mem_id m \<in> insert (mem_id s) (mem_id ` set srcs) then g m else m) (memories db)"
    by (simp only: update_in_turn[of mem_id g, OF gid gg])
  then have "memories db'
      = map (\<lambda>m. if mem_id m \<in> mem_id ` set (s # srcs) then consolidatedInto nid m else m)
          (memories db)"
    by (simp add: g_def)
  moreover have "linkSources db now nid avg (s # srcs) = Inr db'"
    using u c l by simp
  ultimately show ?case by blast
qed

lemma parent_is_stored:
  "wf_db db \<Longrightarrow> m \<in> set (memories db) \<Longrightarrow> parentId m = Some p
     \<Longrightarrow> p \<in> mem_id ` set (memories db)"
  by (auto simp: wf_db_def list_all_iff split: option.splits)

lemma edge_db_memories: "memories edge_db = [stale_memory, vital_memory]"
  by (simp add: edge_db_def empty_db_def)

lemma pair_cluster_fields:
  "cl_memories pair_cluster = [stale_memory, vital_memory]" "combinedImportance pair_cluster = 9"
  by (simp_all add: pair_cluster_def)

lemma pair_levels: "level stale_memory = 1" "level vital_memory = 1"
  "parentId stale_memory = None" "parentId vital_memory = None"
  by (simp_all add: stale_memory_def vital_memory_def)

text \<open>
  Claim C3. Consolidating a cluster of at least two source memories (the body of the loop
  of \<^verbatim>\<open>consolidate\<close> when it is not a dry run) returns, adds exactly one memory at the end
  of the table, with a new id, at level \<open>min 3 (maxSourceLevel + 1)\<close>, and changes the
  other rows in this way only: the rows of the source ids get the status
  \<^verbatim>\<open>consolidated\<close> and the new memory's id as parent. Afterwards the memories with that
  status and that parent are exactly the sources, and there are as many as the cluster has
  members. The hypotheses are what the store and \<^verbatim>\<open>findSimilarClusters\<close> guarantee: unique
  ids and stored parents, sources that are stored memories, each once in the cluster, and
  a combined importance between 1 and 9.
\<close>

theorem consolidateCluster_creates_one_and_links_sources:
  assumes wf: "wf_db db"
    and stored: "\<forall>s \<in> set (cl_memories c). memoryExists db (mem_id s)"
    and dist: "distinct (map mem_id (cl_memories c))"
    and n: "2 \<le> length (cl_memories c)"
    and imp: "1 \<le> combinedImportance c" "combinedImportance c \<le> 9"
  shows "\<exists>db' a w' new.
       consolidateCluster qe ge db now ph c w = Inr (db', a, w')
     \<and> memories db'
         = map (\<lambda>m. if mem_id m \<in> mem_id ` set (cl_memories c)
                     then consolidatedInto (ac_id a) m else m) (memories db) @ [new]
     \<and> mem_id new = ac_id a \<and> ac_id a \<notin> mem_id ` set (memories db)
     \<and> level new = min 3 (Max (set (map level (cl_memories c))) + 1)
     \<and> ac_level a = level new \<and> status new = Active \<and> parentId new = None
     \<and> length (filter (\<lambda>m. status m = Consolidated \<and> parentId m = Some (ac_id a))
                  (memories db'))
         = length (cl_memories c)
     \<and> (\<forall>m \<in> set (memories db').
           status m = Consolidated \<and> parentId m = Some (ac_id a)
             \<longleftrightarrow> mem_id m \<in> mem_id ` set (cl_memories c))
     \<and> sourceCount a = length (cl_memories c)"
proof -
  define inp where "inp = \<lparr>cm_type = Lesson,
       cm_encoded = qe (suggestedAbstraction c) ''pattern'' (combinedImportance c),
       cm_decodedCache = Some (suggestedAbstraction c),
       cm_scope = (if list_ex (\<lambda>m. scope m = Global) (cl_memories c) then Global else Project),
       cm_projectHash = (if (if list_ex (\<lambda>m. scope m = Global) (cl_memories c) then Global else Project) = Project
                         then ph else None),
       cm_importance = Some (combinedImportance c)\<rparr>"
  define L where "L = min 3 (Max (set (map level (cl_memories c))) + 1)"
  define S where "S = mem_id ` set (cl_memories c)"
  have Lb: "1 \<le> L" "L \<le> 3" by (simp_all add: L_def)
  have "cm_importance inp = Some (combinedImportance c)" by (simp add: inp_def)
  from createMemory_ok[OF this imp, of db now] obtain new where
    cr: "createMemory db now inp
           = Inr (db\<lparr>memories := memories db @ [new], memories_seq := mem_id new\<rparr>, new)"
    and nid: "mem_id new = autoincrement (memories_seq db) (map mem_id (memories db))"
    and nf: "status new = Active" "parentId new = None"
    by blast
  define db1 where "db1 = db\<lparr>memories := memories db @ [new], memories_seq := mem_id new\<rparr>"
  define newL where "newL = new\<lparr>level := L\<rparr>"
  have newL: "mem_id newL = mem_id new" "status newL = Active" "parentId newL = None"
    "level newL = L"
    by (simp_all add: newL_def nf)
  have fresh: "mem_id new \<notin> mem_id ` set (memories db)"
    using autoincrement_fresh[of "memories_seq db" "map mem_id (memories db)"] nid by simp
  define db2 where "db2 = updateMemoriesWhereId db1 (mem_id new) (\<lambda>m. m\<lparr>level := L\<rparr>)"
  have ul: "updateLevel db1 (mem_id new) L = Inr db2"
    unfolding db2_def by (rule updateLevel_ok[OF Lb])
  have "memories db2
          = map (\<lambda>m. if mem_id m = mem_id new then m\<lparr>level := L\<rparr> else m) (memories db @ [new])"
    by (simp add: db2_def db1_def updateMemoriesWhereId_def del: map_append)
  then have m2: "memories db2 = memories db @ [newL]"
    by (simp only: append_update_last[of mem_id new "memories db", OF fresh] newL_def)
  define p where "p = (case embedMemory ge db2 (mem_id new) (suggestedAbstraction c) of
                           Inl err \<Rightarrow>
                             (db2, w @ [''Failed to embed consolidated memory #''
                                          @ string_of_nat (mem_id new) @ '': '' @ err])
                         | Inr db3 \<Rightarrow> (db3, w))"
  obtain db3 w' where pe: "p = (db3, w')" by (cases p)
  have "memories (fst p) = memories db2" unfolding p_def by (rule embedded_memories)
  with pe m2 have m3: "memories db3 = memories db @ [newL]" by simp
  have sub: "S \<subseteq> mem_id ` set (memories db)"
    using stored by (auto simp: S_def memoryExists_iff)
  have ex3: "\<forall>s \<in> set (cl_memories c). memoryExists db3 (mem_id s)"
    "memoryExists db3 (mem_id new)"
    using sub by (auto simp: memoryExists_iff m3 newL S_def)
  from linkSources_memories[OF ex3, of now "averageSimilarity c"] obtain db4 where
    l: "linkSources db3 now (mem_id new) (averageSimilarity c) (cl_memories c) = Inr db4"
    and m4: "memories db4
               = map (\<lambda>m. if mem_id m \<in> S then consolidatedInto (mem_id new) m else m)
                   (memories db3)"
    by (auto simp: S_def)
  have notS: "mem_id new \<notin> S" using sub fresh by blast
  define marked where
    "marked = map (\<lambda>m. if mem_id m \<in> S then consolidatedInto (mem_id new) m else m) (memories db)"
  have m4': "memories db4 = marked @ [newL]"
    using notS by (simp add: m4 m3 newL marked_def)
  define a where "a = \<lparr>ac_id = mem_id new, ac_level = L,
                         ac_content = take 200 (suggestedAbstraction c) @ ''...'',
                         sourceCount = length (cl_memories c),
                         ac_combinedImportance = combinedImportance c\<rparr>"
  have res: "consolidateCluster qe ge db now ph c w = Inr (db4, a, w')"
    using cr ul[unfolded db1_def] pe[unfolded p_def db2_def db1_def] l
    unfolding consolidateCluster_def Let_def inp_def[symmetric] L_def[symmetric] a_def
    by (simp add: db2_def db1_def)
  have a: "ac_id a = mem_id new" "ac_level a = L" "sourceCount a = length (cl_memories c)"
    by (simp_all add: a_def)
  let ?P = "\<lambda>m. status m = Consolidated \<and> parentId m = Some (mem_id new)"
  have no: "\<not> ?P x" if "x \<in> set (memories db)" "mem_id x \<notin> set (map mem_id (cl_memories c))" for x
    using parent_is_stored[OF wf that(1), of "mem_id new"] fresh by auto
  have yes: "?P (consolidatedInto (mem_id new) x)" for x
    by (simp add: consolidatedInto_def)
  have cnt: "length (filter ?P
               (map (\<lambda>x. if mem_id x \<in> set (map mem_id (cl_memories c))
                          then consolidatedInto (mem_id new) x else x) (memories db)))
             = length (map mem_id (cl_memories c))"
  proof (rule count_marked)
    show "distinct (map mem_id (memories db))" using wf by (simp add: wf_db_def)
    show "distinct (map mem_id (cl_memories c))" by (rule dist)
    show "set (map mem_id (cl_memories c)) \<subseteq> mem_id ` set (memories db)"
      using sub by (simp add: S_def)
    show "\<And>x. x \<in> set (memories db) \<Longrightarrow> mem_id x \<in> set (map mem_id (cl_memories c))
            \<Longrightarrow> ?P (consolidatedInto (mem_id new) x)"
      by (rule yes)
    show "\<And>x. x \<in> set (memories db) \<Longrightarrow> mem_id x \<notin> set (map mem_id (cl_memories c))
            \<Longrightarrow> \<not> ?P x"
      by (rule no)
  qed
  have cnt': "length (filter ?P marked) = length (cl_memories c)"
    using cnt by (simp add: marked_def S_def)
  have count: "length (filter ?P (memories db4)) = length (cl_memories c)"
    using cnt' by (simp add: m4' newL)
  have iff: "\<forall>m \<in> set (memories db4). ?P m \<longleftrightarrow> mem_id m \<in> S"
  proof
    fix m assume "m \<in> set (memories db4)"
    then consider "m = newL" | x where "x \<in> set (memories db)" "mem_id x \<in> S"
        "m = consolidatedInto (mem_id new) x"
      | "m \<in> set (memories db)" "mem_id m \<notin> S"
      by (auto simp: m4' marked_def split: if_splits)
    then show "?P m \<longleftrightarrow> mem_id m \<in> S"
    proof cases
      case 1
      then show ?thesis using notS by (simp add: newL)
    next
      case 2
      then show ?thesis by (simp add: consolidatedInto_def)
    next
      case 3
      then show ?thesis using no[of m] by (simp add: S_def)
    qed
  qed
  have "consolidateCluster qe ge db now ph c w = Inr (db4, a, w')
     \<and> memories db4
         = map (\<lambda>m. if mem_id m \<in> mem_id ` set (cl_memories c)
                     then consolidatedInto (ac_id a) m else m) (memories db) @ [newL]
     \<and> mem_id newL = ac_id a \<and> ac_id a \<notin> mem_id ` set (memories db)
     \<and> level newL = min 3 (Max (set (map level (cl_memories c))) + 1)
     \<and> ac_level a = level newL \<and> status newL = Active \<and> parentId newL = None
     \<and> length (filter (\<lambda>m. status m = Consolidated \<and> parentId m = Some (ac_id a))
                  (memories db4))
         = length (cl_memories c)
     \<and> (\<forall>m \<in> set (memories db4).
           status m = Consolidated \<and> parentId m = Some (ac_id a)
             \<longleftrightarrow> mem_id m \<in> mem_id ` set (cl_memories c))
     \<and> sourceCount a = length (cl_memories c)"
    using res m4' fresh count iff
    by (simp only: a newL marked_def S_def L_def simp_thms)
  then show ?thesis by blast
qed

theorem consolidateCluster_creates_one_and_links_sources_witness:
  "wf_db edge_db
   \<and> (\<exists>db' a w' new.
         consolidateCluster (\<lambda>t k i. t) (\<lambda>t. Inl ''no key'') edge_db 5000 None pair_cluster []
           = Inr (db', a, w')
       \<and> memories db' = [consolidatedInto (ac_id a) stale_memory,
                          consolidatedInto (ac_id a) vital_memory, new]
       \<and> mem_id new = ac_id a \<and> ac_id a \<noteq> 1 \<and> ac_id a \<noteq> 2
       \<and> level new = 2 \<and> ac_level a = 2 \<and> status new = Active \<and> parentId new = None
       \<and> length (filter (\<lambda>m. status m = Consolidated \<and> parentId m = Some (ac_id a))
                    (memories db')) = 2)"
proof -
  have wf: "wf_db edge_db"
    by (simp add: wf_db_def edge_db_def empty_db_def stale_fields vital_fields pair_levels)
  have stored: "\<forall>s \<in> set (cl_memories pair_cluster). memoryExists edge_db (mem_id s)"
    by (simp add: pair_cluster_fields memoryExists_iff edge_db_memories)
  have dist: "distinct (map mem_id (cl_memories pair_cluster))"
    by (simp add: pair_cluster_fields stale_fields vital_fields)
  have n: "2 \<le> length (cl_memories pair_cluster)"
    by (simp add: pair_cluster_fields)
  have imp: "1 \<le> combinedImportance pair_cluster" "combinedImportance pair_cluster \<le> 9"
    by (simp_all add: pair_cluster_fields)
  from consolidateCluster_creates_one_and_links_sources[OF wf stored dist n imp,
      of "\<lambda>t k i. t" "\<lambda>t. Inl ''no key''" 5000 None "[]"]
  obtain db' a w' new where
    r: "consolidateCluster (\<lambda>t k i. t) (\<lambda>t. Inl ''no key'') edge_db 5000 None pair_cluster []
          = Inr (db', a, w')"
    and m: "memories db'
         = map (\<lambda>m. if mem_id m \<in> mem_id ` set (cl_memories pair_cluster)
                     then consolidatedInto (ac_id a) m else m) (memories edge_db) @ [new]"
    and i: "mem_id new = ac_id a" "ac_id a \<notin> mem_id ` set (memories edge_db)"
    and l: "level new = min 3 (Max (set (map level (cl_memories pair_cluster))) + 1)"
      "ac_level a = level new" "status new = Active" "parentId new = None"
    and c: "length (filter (\<lambda>m. status m = Consolidated \<and> parentId m = Some (ac_id a))
                  (memories db')) = length (cl_memories pair_cluster)"
    by blast
  have m': "memories db' = [consolidatedInto (ac_id a) stale_memory,
                          consolidatedInto (ac_id a) vital_memory, new]"
    using m by (simp add: pair_cluster_fields edge_db_memories stale_fields vital_fields)
  have i': "ac_id a \<noteq> 1" "ac_id a \<noteq> 2"
    using i(2) by (auto simp: edge_db_memories stale_fields vital_fields)
  have l': "level new = 2" "ac_level a = 2"
    using l by (simp_all add: pair_cluster_fields pair_levels)
  have c': "length (filter (\<lambda>m. status m = Consolidated \<and> parentId m = Some (ac_id a))
                    (memories db')) = 2"
    using c by (simp add: pair_cluster_fields)
  from wf r m' i(1) i' l' l(3,4) c' show ?thesis by blast
qed

section \<open>The feedback log\<close>

lemma storeAfter_simps:
  "storeAfter (Inl e) = snd e" "storeAfter (Inr ok) = fst ok"
  "storeAfterVoid (Inl e) = snd e" "storeAfterVoid (Inr db) = db"
  by (simp_all add: storeAfter_def storeAfterVoid_def)

lemma recordFeedback_log:
  "memory_feedback (storeAfter (recordFeedback db now i ty ctx))
     = (if memoryExists db i
        then memory_feedback db
               @ [\<lparr>fb_id = autoincrement (memory_feedback_seq db) (map fb_id (memory_feedback db)),
                   fb_memoryId = i, feedbackType = ty, fb_context = ctx, fb_timestamp = now\<rparr>]
        else memory_feedback db)"
  by (simp add: recordFeedback_def Let_def storeAfter_simps)

lemma applyDecayLoop_log:
  "memory_feedback (applyDecayLoop db now is) = memory_feedback db"
  by (induction "is" arbitrary: db) simp_all

lemma applyDecayToAll_log:
  "memory_feedback (fst (applyDecayToAll db now)) = memory_feedback db"
  by (simp add: applyDecayToAll_def Let_def applyDecayLoop_log)

lemma getMemory_log:
  "memory_feedback (fst (getMemory db now i)) = memory_feedback db"
  by (simp add: getMemory_def split: option.splits)

lemma suggestLoop_log:
  "memory_feedback (fst (suggestLoop db now rows acc)) = memory_feedback db"
proof (induction rows arbitrary: db acc)
  case Nil
  show ?case by simp
next
  case (Cons row rows)
  obtain db1 m where g: "getMemory db now (fst row) = (db1, m)"
    by (cases "getMemory db now (fst row)")
  then have "memory_feedback db1 = memory_feedback db"
    using getMemory_log[of db now "fst row"] by simp
  with g Cons.IH[of db1] show ?case by (simp split: option.splits)
qed

lemma getSuggestedMemories_log:
  "memory_feedback (fst (getSuggestedMemories db now cur limit)) = memory_feedback db"
  by (simp add: getSuggestedMemories_def suggestLoop_log)

lemma decayRelationshipStrengths_log:
  "memory_feedback (fst (decayRelationshipStrengths db f lo)) = memory_feedback db"
  by (simp add: decayRelationshipStrengths_def Let_def)

lemma updateMemoryStatus_log:
  "memory_feedback (storeAfter (updateMemoryStatus db i st par)) = memory_feedback db"
  by (simp add: updateMemoryStatus_def storeAfter_simps)

lemma createMemory_log:
  "memory_feedback (storeAfter (createMemory db now inp)) = memory_feedback db"
  by (simp add: createMemory_def Let_def storeAfter_simps)

lemma createRelationship_log:
  "memory_feedback (storeAfter (createRelationship db now s t rel str)) = memory_feedback db"
  by (simp add: createRelationship_def Let_def storeAfter_simps)

lemma updateLevel_log:
  "memory_feedback (storeAfterVoid (updateLevel db i l)) = memory_feedback db"
  by (simp add: updateLevel_def storeAfter_simps)

lemma coAccessPair_log:
  "memory_feedback (storeAfterVoid (coAccessPair db now inc a b)) = memory_feedback db"
proof -
  have "memory_feedback (storeAfterVoid
          (case createRelationship db now s t Similar inc of
             Inl e \<Rightarrow> Inl e | Inr (db', row) \<Rightarrow> Inr db')) = memory_feedback db" for s t
    using createRelationship_log[of db now s t Similar inc]
    by (cases "createRelationship db now s t Similar inc")
       (auto simp: storeAfter_simps)
  then show ?thesis
    by (simp add: coAccessPair_def Let_def storeAfter_simps split: option.splits)
qed

lemma coAccessInner_log:
  "memory_feedback (storeAfterVoid (coAccessInner db now inc a bs)) = memory_feedback db"
proof (induction bs arbitrary: db)
  case Nil
  show ?case by (simp add: storeAfter_simps)
next
  case (Cons b bs)
  show ?case
    using coAccessPair_log[of db now inc a b] Cons.IH
    by (cases "coAccessPair db now inc a b") (simp_all add: storeAfter_simps)
qed

lemma coAccessOuter_log:
  "memory_feedback (storeAfterVoid (coAccessOuter db now inc ids)) = memory_feedback db"
proof (induction ids arbitrary: db)
  case Nil
  show ?case by (simp add: storeAfter_simps)
next
  case (Cons a ids)
  show ?case
    using coAccessInner_log[of db now inc a ids] Cons.IH
    by (cases "coAccessInner db now inc a ids") (simp_all add: storeAfter_simps)
qed

lemma recordCoAccess_log:
  "memory_feedback (storeAfterVoid (recordCoAccess db now ids inc)) = memory_feedback db"
  by (simp add: recordCoAccess_def coAccessOuter_log storeAfter_simps)

lemma embedded_log:
  "memory_feedback (fst (case embedMemory ge db i txt of
                           Inl err \<Rightarrow> (db, w1 err) | Inr db3 \<Rightarrow> (db3, w2)))
     = memory_feedback db"
  by (simp add: embedMemory_def storeEmbedding_def split: sum.splits)

lemma linkSources_log:
  "memory_feedback (storeAfterVoid (linkSources db now nid avg srcs)) = memory_feedback db"
proof (induction srcs arbitrary: db)
  case Nil
  show ?case by (simp add: storeAfter_simps)
next
  case (Cons s srcs)
  show ?case
  proof (cases "updateMemoryStatus db (mem_id s) Consolidated (Some nid)")
    case (Inl e)
    with updateMemoryStatus_log[of db "mem_id s" Consolidated "Some nid"]
    show ?thesis by (simp add: storeAfter_simps)
  next
    case (Inr ok)
    obtain db1 ch where ok: "ok = (db1, ch)" by (cases ok)
    from Inr ok updateMemoryStatus_log[of db "mem_id s" Consolidated "Some nid"]
    have f1: "memory_feedback db1 = memory_feedback db" by (simp add: storeAfter_simps)
    show ?thesis
    proof (cases "createRelationship db1 now (mem_id s) nid DerivedFrom avg")
      case (Inl e)
      with createRelationship_log[of db1 now "mem_id s" nid DerivedFrom avg] f1 Inr ok
      show ?thesis by (simp add: storeAfter_simps)
    next
      case inr2: (Inr ok2)
      obtain db2 row where ok2: "ok2 = (db2, row)" by (cases ok2)
      from inr2 ok2 createRelationship_log[of db1 now "mem_id s" nid DerivedFrom avg] f1
      have f2: "memory_feedback db2 = memory_feedback db" by (simp add: storeAfter_simps)
      from Inr ok inr2 ok2 Cons.IH[of db2] f2 show ?thesis by simp
    qed
  qed
qed

lemma deleteMemory_feedback:
  "memory_feedback (fst (deleteMemory db i))
     = (if memoryExists db i then filter (\<lambda>f. fb_memoryId f \<noteq> i) (memory_feedback db)
        else memory_feedback db)"
  by (simp add: deleteMemory_def)

lemma image_id_preserved:
  "(\<And>m. mem_id (g m) = mem_id m) \<Longrightarrow> mem_id ` set (map g xs) = mem_id ` set xs"
  by (induction xs) auto

lemma deleteMemory_exists_other:
  assumes "i \<noteq> j"
  shows "memoryExists (fst (deleteMemory db j)) i = memoryExists db i"
proof (cases "memoryExists db j")
  case True
  have "mem_id ` set (map (\<lambda>m. if parentId m = Some j then m\<lparr>parentId := None\<rparr> else m) xs)
          = mem_id ` set xs" for xs
    by (rule image_id_preserved) (rule mem_id_nulled)
  then have "mem_id ` set (memories (fst (deleteMemory db j)))
          = mem_id ` set (filter (\<lambda>m. mem_id m \<noteq> j) (memories db))"
    using True by (simp only: deleteMemory_memories if_True)
  then show ?thesis using assms by (auto simp: memoryExists_iff)
next
  case False
  then have "memories (fst (deleteMemory db j)) = memories db"
    by (simp only: deleteMemory_memories if_False)
  then show ?thesis by (rule memoryExists_memories_cong)
qed

lemma pruneLoop_archive_feedback:
  "pruneLoop db False ms k = Inr (db', n) \<Longrightarrow> memory_feedback db' = memory_feedback db"
  by (induction ms arbitrary: db k) (simp_all add: archive_result)

lemma pruneLoop_delete_feedback:
  assumes "pruneLoop db True ms k = Inr (db', n)"
    and "\<forall>m \<in> set ms. memoryExists db (mem_id m)
           \<or> (\<forall>f \<in> set (memory_feedback db). fb_memoryId f \<noteq> mem_id m)"
  shows "memory_feedback db'
           = filter (\<lambda>f. fb_memoryId f \<notin> mem_id ` set ms) (memory_feedback db)"
  using assms
proof (induction ms arbitrary: db k)
  case Nil
  then show ?case by simp
next
  case (Cons m ms)
  let ?db1 = "fst (deleteMemory db (mem_id m))"
  have f1: "memory_feedback ?db1 = filter (\<lambda>f. fb_memoryId f \<noteq> mem_id m) (memory_feedback db)"
  proof (cases "memoryExists db (mem_id m)")
    case True
    then show ?thesis by (simp add: deleteMemory_feedback)
  next
    case False
    with Cons.prems(2) have "\<forall>f \<in> set (memory_feedback db). fb_memoryId f \<noteq> mem_id m"
      by simp
    then have "filter (\<lambda>f. fb_memoryId f \<noteq> mem_id m) (memory_feedback db) = memory_feedback db"
      by (simp add: filter_id_conv)
    with False show ?thesis by (simp add: deleteMemory_feedback)
  qed
  have good: "\<forall>m' \<in> set ms. memoryExists ?db1 (mem_id m')
           \<or> (\<forall>f \<in> set (memory_feedback ?db1). fb_memoryId f \<noteq> mem_id m')"
  proof
    fix m' assume m': "m' \<in> set ms"
    show "memoryExists ?db1 (mem_id m')
           \<or> (\<forall>f \<in> set (memory_feedback ?db1). fb_memoryId f \<noteq> mem_id m')"
    proof (cases "mem_id m' = mem_id m")
      case True
      then show ?thesis by (simp add: f1)
    next
      case False
      from Cons.prems(2) m' have "memoryExists db (mem_id m')
           \<or> (\<forall>f \<in> set (memory_feedback db). fb_memoryId f \<noteq> mem_id m')"
        by simp
      then show ?thesis
        using deleteMemory_exists_other[OF False, of db] by (auto simp: f1)
    qed
  qed
  from Cons.prems(1) have "pruneLoop ?db1 True ms (k + 1) = Inr (db', n)" by simp
  from Cons.IH[OF this good] show ?case
    by (simp add: f1 conj_commute)
qed

lemma prune_store:
  "\<exists>db' res. prune db now input ph = Inr (db', res)
     \<and> prunedIds res
         = map mem_id (filter (\<lambda>m. \<not> unsafe now m) (pruneCandidates db now input ph))
     \<and> (isDryRun input \<longrightarrow> db' = db)
     \<and> (\<not> isDryRun input \<longrightarrow>
          (\<exists>n. pruneLoop db (isPermanent input)
                  (filter (\<lambda>m. \<not> unsafe now m) (pruneCandidates db now input ph)) 0
                = Inr (db', n)))"
proof -
  define safe where "safe = filter (\<lambda>m. \<not> unsafe now m) (pruneCandidates db now input ph)"
  define w where "w = map (safetyWarning now) (filter (unsafe now) (pruneCandidates db now input ph))"
  obtain db1 n where l: "pruneLoop db (isPermanent input) safe 0 = Inr (db1, n)"
    using pruneLoop_total by blast
  have sf: "safetyFilter now (pruneCandidates db now input ph) [] = (safe, w)"
    by (simp add: safetyFilter_eq safe_def w_def)
  have ids: "map (pm_id \<circ> prunedDetail now) safe = map mem_id safe"
    by (simp add: prunedDetail_def Let_def comp_def)
  have flags: "(case dryRun_in input of None \<Rightarrow> False | Some b \<Rightarrow> b) = isDryRun input"
    "(case permanent_in input of None \<Rightarrow> False | Some b \<Rightarrow> b) = isPermanent input"
    by (simp_all add: isDryRun_def isPermanent_def)
  consider (none) "safe = []" | (dry) "safe \<noteq> []" "isDryRun input"
    | (live) "safe \<noteq> []" "\<not> isDryRun input"
    by blast
  then have "\<exists>db' res. prune db now input ph = Inr (db', res)
     \<and> prunedIds res = map mem_id safe
     \<and> (isDryRun input \<longrightarrow> db' = db)
     \<and> (\<not> isDryRun input \<longrightarrow>
          (\<exists>n. pruneLoop db (isPermanent input) safe 0 = Inr (db', n)))"
  proof cases
    case none
    then show ?thesis
      by (simp add: prune_def flags sf prunedIds_def)
  next
    case dry
    then show ?thesis
      by (simp add: prune_def flags sf prunedIds_def ids Let_def)
  next
    case live
    then show ?thesis
      by (simp add: prune_def flags sf prunedIds_def ids Let_def l)
  qed
  then show ?thesis by (simp only: safe_def)
qed

lemma prune_feedback:
  assumes "prune db now input ph = Inr (db', res)"
  shows "memory_feedback db'
           = (if isPermanent input \<and> \<not> isDryRun input
              then filter (\<lambda>f. fb_memoryId f \<notin> set (prunedIds res)) (memory_feedback db)
              else memory_feedback db)"
proof -
  let ?safe = "filter (\<lambda>m. \<not> unsafe now m) (pruneCandidates db now input ph)"
  from prune_store[of db now input ph] assms
  have ids: "prunedIds res = map mem_id ?safe"
    and dry: "isDryRun input \<longrightarrow> db' = db"
    and live: "\<not> isDryRun input \<longrightarrow>
          (\<exists>n. pruneLoop db (isPermanent input) ?safe 0 = Inr (db', n))"
    by auto
  show ?thesis
  proof (cases "isDryRun input")
    case True
    with dry show ?thesis by simp
  next
    case False
    with live obtain n where l: "pruneLoop db (isPermanent input) ?safe 0 = Inr (db', n)"
      by blast
    show ?thesis
    proof (cases "isPermanent input")
      case True
      have "\<forall>m \<in> set ?safe. memoryExists db (mem_id m)"
        using set_pruneCandidates by (auto simp: memoryExists_iff)
      then have "\<forall>m \<in> set ?safe. memoryExists db (mem_id m)
           \<or> (\<forall>f \<in> set (memory_feedback db). fb_memoryId f \<noteq> mem_id m)"
        by blast
      moreover from l True have "pruneLoop db True ?safe 0 = Inr (db', n)" by simp
      ultimately have "memory_feedback db'
           = filter (\<lambda>f. fb_memoryId f \<notin> mem_id ` set ?safe) (memory_feedback db)"
        by (rule pruneLoop_delete_feedback[rotated])
      with True False ids show ?thesis by simp
    next
      case perm: False
      from l perm have "pruneLoop db False ?safe 0 = Inr (db', n)" by simp
      from pruneLoop_archive_feedback[OF this] perm show ?thesis
        by simp
    qed
  qed
qed

lemma prune_log:
  "\<exists>db' res. prune db now input ph = Inr (db', res)
     \<and> memory_feedback db'
         = (if isPermanent input \<and> \<not> isDryRun input
            then filter (\<lambda>f. fb_memoryId f \<notin> set (prunedIds res)) (memory_feedback db)
            else memory_feedback db)"
proof -
  from prune_store[of db now input ph] obtain db' res
    where p: "prune db now input ph = Inr (db', res)" by blast
  from prune_feedback[OF p] p show ?thesis by blast
qed

lemma consolidateCluster_log:
  "memory_feedback (storeAfter (consolidateCluster qe ge db now ph c w)) = memory_feedback db"
proof -
  define inp where "inp = \<lparr>cm_type = Lesson,
       cm_encoded = qe (suggestedAbstraction c) ''pattern'' (combinedImportance c),
       cm_decodedCache = Some (suggestedAbstraction c),
       cm_scope = (if list_ex (\<lambda>m. scope m = Global) (cl_memories c) then Global else Project),
       cm_projectHash = (if (if list_ex (\<lambda>m. scope m = Global) (cl_memories c) then Global else Project) = Project
                         then ph else None),
       cm_importance = Some (combinedImportance c)\<rparr>"
  define L where "L = min 3 (Max (set (map level (cl_memories c))) + 1)"
  show ?thesis
  proof (cases "createMemory db now inp")
    case (Inl e)
    with createMemory_log[of db now inp] show ?thesis
      unfolding consolidateCluster_def Let_def inp_def[symmetric] L_def[symmetric]
      by (simp add: storeAfter_simps)
  next
    case (Inr ok)
    obtain db1 new where ok: "ok = (db1, new)" by (cases ok)
    from Inr ok createMemory_log[of db now inp]
    have f1: "memory_feedback db1 = memory_feedback db" by (simp add: storeAfter_simps)
    have cr: "createMemory db now inp = Inr (db1, new)" using Inr ok by simp
    show ?thesis
    proof (cases "updateLevel db1 (mem_id new) L")
      case (Inl e)
      with updateLevel_log[of db1 "mem_id new" L] f1 cr show ?thesis
        unfolding consolidateCluster_def Let_def inp_def[symmetric] L_def[symmetric]
        by (simp add: storeAfter_simps)
    next
      case ul: (Inr db2)
      from ul updateLevel_log[of db1 "mem_id new" L] f1
      have f2: "memory_feedback db2 = memory_feedback db" by (simp add: storeAfter_simps)
      define p where "p = (case embedMemory ge db2 (mem_id new) (suggestedAbstraction c) of
                           Inl err \<Rightarrow>
                             (db2, w @ [''Failed to embed consolidated memory #''
                                          @ string_of_nat (mem_id new) @ '': '' @ err])
                         | Inr db3 \<Rightarrow> (db3, w))"
      obtain db3 w' where pe: "p = (db3, w')" by (cases p)
      have "memory_feedback (fst p) = memory_feedback db2"
        unfolding p_def by (rule embedded_log)
      with pe f2 have f3: "memory_feedback db3 = memory_feedback db" by simp
      have f4: "memory_feedback (storeAfterVoid
                  (linkSources db3 now (mem_id new) (averageSimilarity c) (cl_memories c)))
                = memory_feedback db"
        using linkSources_log[of db3 now "mem_id new" "averageSimilarity c" "cl_memories c"] f3
        by simp
      have "consolidateCluster qe ge db now ph c w
            = (case linkSources db3 now (mem_id new) (averageSimilarity c) (cl_memories c) of
                 Inl e \<Rightarrow> Inl e
               | Inr db4 \<Rightarrow>
                   Inr (db4,
                        \<lparr>ac_id = mem_id new, ac_level = L,
                         ac_content = take 200 (suggestedAbstraction c) @ ''...'',
                         sourceCount = length (cl_memories c),
                         ac_combinedImportance = combinedImportance c\<rparr>,
                        w'))"
        using cr ul pe[unfolded p_def]
        unfolding consolidateCluster_def Let_def inp_def[symmetric] L_def[symmetric]
        by simp
      with f4 show ?thesis
        by (cases "linkSources db3 now (mem_id new) (averageSimilarity c) (cl_memories c)")
           (simp_all add: storeAfter_simps)
    qed
  qed
qed

lemma consolidateLoop_log:
  "memory_feedback (storeAfter (consolidateLoop qe ge db now ph cs created n w))
     = memory_feedback db"
proof (induction cs arbitrary: db created n w)
  case Nil
  show ?case by (simp add: storeAfter_simps)
next
  case (Cons c cs)
  show ?case
  proof (cases "consolidateCluster qe ge db now ph c w")
    case (Inl e)
    with consolidateCluster_log[of qe ge db now ph c w] show ?thesis
      by (simp add: storeAfter_simps)
  next
    case (Inr ok)
    obtain db1 a w1 where ok: "ok = (db1, a, w1)" by (cases ok)
    from Inr ok consolidateCluster_log[of qe ge db now ph c w]
    have "memory_feedback db1 = memory_feedback db" by (simp add: storeAfter_simps)
    with Inr ok Cons.IH[of db1] show ?thesis by simp
  qed
qed

lemma feedbackLoop_log:
  "\<exists>evs. memory_feedback (storeAfter (feedbackLoop db now ty ctx ids upd w))
           = memory_feedback db @ evs"
proof (induction ids arbitrary: db upd w)
  case Nil
  show ?case by (simp add: storeAfter_simps)
next
  case (Cons i ids)
  obtain db1 m where g1: "getMemory db now i = (db1, m)" by (cases "getMemory db now i")
  with getMemory_log[of db now i] have f1: "memory_feedback db1 = memory_feedback db" by simp
  show ?case
  proof (cases m)
    case None
    with g1 f1 Cons.IH[of db1] show ?thesis by simp
  next
    case (Some mem)
    obtain ev1 where rf: "memory_feedback (storeAfter (recordFeedback db1 now i ty ctx))
                           = memory_feedback db @ ev1"
      using recordFeedback_log[of db1 now i ty ctx] f1 by (cases "memoryExists db1 i") simp_all
    show ?thesis
    proof (cases "recordFeedback db1 now i ty ctx")
      case (Inl e)
      with rf g1 Some show ?thesis by (simp add: storeAfter_simps)
    next
      case (Inr ok)
      obtain db2 ev where ok: "ok = (db2, ev)" by (cases ok)
      from Inr ok rf have f2: "memory_feedback db2 = memory_feedback db @ ev1"
        by (simp add: storeAfter_simps)
      obtain db3 m2 where g2: "getMemory db2 now i = (db3, m2)" by (cases "getMemory db2 now i")
      with getMemory_log[of db2 now i] f2
      have f3: "memory_feedback db3 = memory_feedback db @ ev1" by simp
      have "\<exists>evs. memory_feedback (storeAfter (feedbackLoop db3 now ty ctx ids upd' w))
                   = memory_feedback db @ evs" for upd'
        using Cons.IH[of db3 upd' w] f3 by auto
      with g1 Some Inr ok g2 show ?thesis
        by (cases m2) simp_all
    qed
  qed
qed

lemma feedback_log:
  "\<exists>evs. memory_feedback (storeAfter (feedback db now input)) = memory_feedback db @ evs"
proof (cases "memoryIds input = None \<or> memoryIds input = Some []")
  case True
  then show ?thesis by (auto simp: feedback_def storeAfter_simps)
next
  case False
  show ?thesis
  proof (cases "feedback_in input")
    case None
    with False show ?thesis by (simp add: feedback_def storeAfter_simps)
  next
    case (Some ty)
    obtain evs where l: "memory_feedback (storeAfter
          (feedbackLoop db now ty (context_in input) (the (memoryIds input)) [] []))
        = memory_feedback db @ evs"
      using feedbackLoop_log by blast
    have "memory_feedback (storeAfter (feedback db now input)) = memory_feedback db @ evs"
      using l False Some
      by (cases "feedbackLoop db now ty (context_in input) (the (memoryIds input)) [] []")
         (auto simp: feedback_def storeAfter_simps)
    then show ?thesis by blast
  qed
qed

lemma prune_permanent_eval:
  "prune prune_db prune_now (prune_input\<lparr>permanent_in := Some True\<rparr>) None
     = Inr (prune_db\<lparr>memories := [vital_memory, recent_memory], memory_feedback := []\<rparr>,
            \<lparr>pr_success = True, pr_dryRun = False, memoriesPruned = 1, estimatedBytes = 110,
             prunedMemories =
               Some [\<lparr>pm_id = 1, pm_type = Lesson, pm_usefulnessScore = 1.5,
                      pm_daysSinceAccess = 120, pm_importance = 5, pm_preview = ''old note''\<rparr>],
             pr_warnings = None\<rparr>)"
proof -
  have cand: "pruneCandidates prune_db prune_now (prune_input\<lparr>permanent_in := Some True\<rparr>) None
                = [stale_memory]"
    using candidates_90 by (simp add: pruneCandidates_def prune_input_def)
  have sf: "safetyFilter prune_now [stale_memory] [] = ([stale_memory], [])"
    by (simp add: safetyFilter_eq unsafe_stale)
  have ex: "memoryExists prune_db (Suc 0)"
    by (simp add: memoryExists_def selectMemory_def prune_db_fields stale_fields)
  have par: "parentId vital_memory = None" "parentId recent_memory = None"
    by (simp_all add: vital_memory_def recent_memory_def stale_memory_def)
  have del: "fst (deleteMemory prune_db (Suc 0))
      = prune_db\<lparr>memories := [vital_memory, recent_memory], memory_feedback := []\<rparr>"
    using ex
    by (simp add: deleteMemory_def prune_db_def empty_db_def stale_fields vital_fields
        recent_fields par stale_event_def)
  have loop: "pruneLoop prune_db True [stale_memory] 0
      = Inr (prune_db\<lparr>memories := [vital_memory, recent_memory], memory_feedback := []\<rparr>, 1)"
    by (simp add: stale_fields del)
  have det: "prunedDetail prune_now stale_memory
      = \<lparr>pm_id = 1, pm_type = Lesson, pm_usefulnessScore = 1.5,
                      pm_daysSinceAccess = 120, pm_importance = 5, pm_preview = ''old note''\<rparr>"
    by (simp add: prunedDetail_def contentOf_def stale_fields days_stale)
  have sz: "estimateMemorySize stale_memory = 110"
    by (simp add: estimateMemorySize_def stale_fields)
  show ?thesis
    by (simp add: prune_def cand prune_input_fields sf loop det sz
        del: pruneLoop.simps safetyFilter.simps)
qed

text \<open>
  Claim C6, amended. The feedback log changes in two ways only. \<^verbatim>\<open>recordFeedback\<close>
  appends one event for a stored memory (and changes nothing when it fails), so the
  feedback tool leaves the earlier events as a prefix of the log. Deleting a memory
  deletes the events recorded for it, through \<^verbatim>\<open>ON DELETE CASCADE\<close> on
  \<^verbatim>\<open>memory_feedback.memory_id\<close>: a permanent prune that is not a dry run leaves exactly
  the events of the memories it did not prune. Every other operation, completed or failed,
  leaves the log as it was: rescoring, decay, reading a memory, creating a memory, a status
  change, creating a relationship, recording co-access, decay of relationship strengths,
  suggestions, consolidation, and a prune that archives or is a dry run. No operation
  changes a field of a stored event.
\<close>

theorem feedback_log_kept_but_for_cascade:
  "memory_feedback (storeAfter (recordFeedback db now i ty ctx))
     = (if memoryExists db i
        then memory_feedback db
               @ [\<lparr>fb_id = autoincrement (memory_feedback_seq db) (map fb_id (memory_feedback db)),
                   fb_memoryId = i, feedbackType = ty, fb_context = ctx, fb_timestamp = now\<rparr>]
        else memory_feedback db)
   \<and> (\<exists>evs. memory_feedback (storeAfter (feedback db now input)) = memory_feedback db @ evs)
   \<and> memory_feedback (fst (updateUsefulnessScore db now i)) = memory_feedback db
   \<and> memory_feedback (fst (applyDecayToAll db now)) = memory_feedback db
   \<and> memory_feedback (fst (getMemory db now i)) = memory_feedback db
   \<and> memory_feedback (storeAfter (createMemory db now cm)) = memory_feedback db
   \<and> memory_feedback (storeAfter (updateMemoryStatus db i st par)) = memory_feedback db
   \<and> memory_feedback (storeAfter (createRelationship db now s t rel str)) = memory_feedback db
   \<and> memory_feedback (storeAfterVoid (recordCoAccess db now ids inc)) = memory_feedback db
   \<and> memory_feedback (fst (decayRelationshipStrengths db factor floor')) = memory_feedback db
   \<and> memory_feedback (fst (getSuggestedMemories db now ids limit)) = memory_feedback db
   \<and> memory_feedback (storeAfter (consolidateLoop qe ge db now ph clusters created n w))
       = memory_feedback db
   \<and> memory_feedback (fst (deleteMemory db i))
       = (if memoryExists db i then filter (\<lambda>f. fb_memoryId f \<noteq> i) (memory_feedback db)
          else memory_feedback db)
   \<and> (\<exists>db' res. prune db now pin ph = Inr (db', res)
         \<and> memory_feedback db'
             = (if isPermanent pin \<and> \<not> isDryRun pin
                then filter (\<lambda>f. fb_memoryId f \<notin> set (prunedIds res)) (memory_feedback db)
                else memory_feedback db))"
  using feedback_log[of db now input] prune_log[of db now pin ph]
  by (simp only: recordFeedback_log updateUsefulnessScore_feedback applyDecayToAll_log
      getMemory_log createMemory_log updateMemoryStatus_log createRelationship_log
      recordCoAccess_log decayRelationshipStrengths_log getSuggestedMemories_log
      consolidateLoop_log deleteMemory_feedback simp_thms)

theorem feedback_log_kept_but_for_cascade_witness:
  "memory_feedback (storeAfter (recordFeedback prune_db prune_now 1 Helpful None))
     = [stale_event,
        \<lparr>fb_id = 2, fb_memoryId = 1, feedbackType = Helpful, fb_context = None,
         fb_timestamp = prune_now\<rparr>]
   \<and> memory_feedback (storeAfter (prune prune_db prune_now prune_input None)) = [stale_event]
   \<and> memory_feedback (fst (deleteMemory prune_db 1)) = []"
proof -
  have ex: "memoryExists prune_db (Suc 0)"
    by (simp add: memoryExists_def selectMemory_def prune_db_fields stale_fields)
  have seq: "memory_feedback_seq prune_db = Suc 0"
    by (simp add: prune_db_def empty_db_def)
  have ev: "fb_id stale_event = Suc 0" "fb_memoryId stale_event = Suc 0"
    by (simp_all add: stale_event_def)
  have flags: "\<not> isPermanent prune_input" "\<not> isDryRun prune_input"
    by (simp_all add: isPermanent_def isDryRun_def prune_input_fields)
  show ?thesis
    using feedback_log_kept_but_for_cascade[where db = prune_db and now = prune_now and i = 1
        and ty = Helpful and ctx = None and pin = prune_input and ph = None
        and input = "\<lparr>memoryIds = None, feedback_in = None, context_in = None\<rparr>"
        and cm = "\<lparr>cm_type = Lesson, cm_encoded = [], cm_decodedCache = None,
                   cm_scope = Global, cm_projectHash = None, cm_importance = None\<rparr>"
        and st = Archived and par = None and s = 1 and t = 2 and rel = Similar and str = 1
        and ids = "[]" and inc = 1 and factor = 1 and floor' = 0 and limit = 0
        and qe = "\<lambda>a b c. a" and ge = "\<lambda>x. Inl x" and clusters = "[]" and created = "[]"
        and n = 0 and w = "[]"]
    by (auto simp: ex seq ev flags prune_db_fields autoincrement_def storeAfter_simps)
qed

text \<open>
  Claim C6 as stated fails: on the sample store, whose log holds one event on memory 1, a
  permanent prune deletes memory 1 and, with it, that event; the log is empty afterwards.
\<close>

theorem feedback_event_deleted_by_permanent_prune:
  "memory_feedback prune_db = [stale_event]
   \<and> prune prune_db prune_now (prune_input\<lparr>permanent_in := Some True\<rparr>) None
       = Inr (prune_db\<lparr>memories := [vital_memory, recent_memory], memory_feedback := []\<rparr>,
              \<lparr>pr_success = True, pr_dryRun = False, memoriesPruned = 1, estimatedBytes = 110,
               prunedMemories =
                 Some [\<lparr>pm_id = 1, pm_type = Lesson, pm_usefulnessScore = 1.5,
                        pm_daysSinceAccess = 120, pm_importance = 5, pm_preview = ''old note''\<rparr>],
               pr_warnings = None\<rparr>)
   \<and> memory_feedback (prune_db\<lparr>memories := [vital_memory, recent_memory], memory_feedback := []\<rparr>)
       = []"
  by (simp add: prune_permanent_eval prune_db_fields)

end
